theory Spec2Isabelle
  imports Complex_Main "HOL-Library.Multiset"
begin

section \<open>Data model (types.ts)\<close>

text \<open>
  The graph description handed to the layout: states and transitions in input order.
  Identifiers, labels and texts are strings; an optional field of the source
  (\<^verbatim>\<open>type?\<close>, \<^verbatim>\<open>description?\<close>, \<^verbatim>\<open>action?\<close>) is an \<open>option\<close>, with \<open>None\<close> for
  \<^verbatim>\<open>undefined\<close>. The fields of a state carry the prefix \<open>state_\<close>, since \<open>id\<close> is a
  constant of HOL.
\<close>

datatype NodeType = INITIAL | STATE

record FSMState =
  state_id :: string
  state_label :: string
  state_type :: "NodeType option"
  state_description :: "string option"

record FSMTransition =
  source :: string
  target :: string
  condition :: string
  action :: "string option"

record FSMData =
  moduleName :: string
  clockSignal :: "string option"
  resetSignal :: "string option"
  states :: "FSMState list"
  transitions :: "FSMTransition list"

section \<open>Hub selection (layout.ts, getRadialLayoutElements, step 1)\<close>

text \<open>
  \<^verbatim>\<open>String.prototype.toUpperCase\<close> on labels. Labels are modelled as strings of 8-bit
  characters: the letters a to z are mapped to A to Z and every other character is left
  as it is, which is what the source does on ASCII labels. Identifiers are only ever
  compared for equality and concatenated.
\<close>

definition toUpperChar :: "char \<Rightarrow> char" where
  "toUpperChar c =
     (case map_of (zip ''abcdefghijklmnopqrstuvwxyz'' ''ABCDEFGHIJKLMNOPQRSTUVWXYZ'') c of
        None \<Rightarrow> c
      | Some u \<Rightarrow> u)"

definition toUpperCase :: "string \<Rightarrow> string" where
  "toUpperCase s = map toUpperChar s"

definition HUB_LABELS :: "string list" where
  "HUB_LABELS = [''IDLE'', ''RESET'', ''WAIT'', ''MAIN'', ''ST_IDLE'']"

definition isHubLabel :: "FSMState \<Rightarrow> bool" where
  "isHubLabel s = (toUpperCase (state_label s) \<in> set HUB_LABELS)"

definition getDegree :: "string \<Rightarrow> FSMTransition list \<Rightarrow> nat" where
  "getDegree nodeId ts = length (filter (\<lambda>t. source t = nodeId \<or> target t = nodeId) ts)"

text \<open>
  \<^verbatim>\<open>[...states].sort((a, b) => degB - degA)\<close>: a stable sort (ECMAScript 2019) by
  descending degree, that is, by ascending negated degree.
\<close>

definition sortedByDegree :: "FSMData \<Rightarrow> FSMState list" where
  "sortedByDegree d =
     sort_key (\<lambda>s. - int (getDegree (state_id s) (transitions d))) (states d)"

text \<open>
  The result of \<^verbatim>\<open>states.find(...)?.id\<close>: \<open>None\<close> is \<^verbatim>\<open>undefined\<close>.
\<close>

definition labelHubId :: "FSMData \<Rightarrow> string option" where
  "labelHubId d = map_option state_id (find isHubLabel (states d))"

text \<open>
  \<^verbatim>\<open>!hubId\<close> holds for \<^verbatim>\<open>undefined\<close> and for the empty string.
\<close>

definition falsy :: "string option \<Rightarrow> bool" where
  "falsy h = (case h of None \<Rightarrow> True | Some s \<Rightarrow> s = [])"

definition hubId :: "FSMData \<Rightarrow> string option" where
  "hubId d =
     (if falsy (labelHubId d)
      then (case sortedByDegree d of [] \<Rightarrow> None | s # _ \<Rightarrow> Some (state_id s))
      else labelHubId d)"

section \<open>Rim ordering (getRadialLayoutElements, step 2)\<close>

definition rimNodes :: "FSMData \<Rightarrow> FSMState list" where
  "rimNodes d = filter (\<lambda>s. Some (state_id s) \<noteq> hubId d) (states d)"

text \<open>
  The state of the greedy chain traversal. The \<^verbatim>\<open>Set<string>\<close> \<^verbatim>\<open>visited\<close> is the list
  of its members in insertion order: \<^verbatim>\<open>has\<close> is membership, \<^verbatim>\<open>add\<close> appends (the
  source adds only an identifier that is not a member), \<^verbatim>\<open>size\<close> is the length.
\<close>

record chain =
  visited :: "string list"
  currentId :: string
  sortedRimNodes :: "FSMState list"

datatype 'a step = Break 'a | Continue 'a

text \<open>The first half of the loop body: \<^verbatim>\<open>if (!visited.has(currentId)) { ... }\<close>.\<close>

definition addCurrent :: "FSMState list \<Rightarrow> chain \<Rightarrow> chain" where
  "addCurrent rim c =
     (if currentId c \<notin> set (visited c)
      then c\<lparr>visited := visited c @ [currentId c],
             sortedRimNodes :=
               (case find (\<lambda>n. state_id n = currentId c) rim of
                  Some node \<Rightarrow> sortedRimNodes c @ [node]
                | None \<Rightarrow> sortedRimNodes c)\<rparr>
      else c)"

definition neighbors :: "string option \<Rightarrow> FSMTransition list \<Rightarrow> chain \<Rightarrow> string list" where
  "neighbors h ts c =
     map target
       (filter (\<lambda>t. source t = currentId c \<and> target t \<notin> set (visited c) \<and> Some (target t) \<noteq> h) ts)"

text \<open>One iteration of the \<^verbatim>\<open>while\<close> loop; \<open>Break\<close> is the \<^verbatim>\<open>break\<close> statement.\<close>

definition chainBody :: "string option \<Rightarrow> FSMTransition list \<Rightarrow> FSMState list \<Rightarrow> chain \<Rightarrow> chain step" where
  "chainBody h ts rim c =
     (let c1 = addCurrent rim c in
      case neighbors h ts c1 of
        n # _ \<Rightarrow> Continue (c1\<lparr>currentId := n\<rparr>)
      | [] \<Rightarrow>
          (case find (\<lambda>n. state_id n \<notin> set (visited c1)) rim of
             None \<Rightarrow> Break c1
           | Some unvisited \<Rightarrow> Continue (c1\<lparr>currentId := state_id unvisited\<rparr>)))"

text \<open>
  The measure that decreases with every iteration that continues: twice the number of
  identifiers still missing from \<^verbatim>\<open>visited\<close>, plus one when the current identifier
  is already a member.
\<close>

definition chainMeasure :: "FSMState list \<Rightarrow> chain \<Rightarrow> nat" where
  "chainMeasure rim c =
     2 * (length rim - length (visited c)) + (if currentId c \<in> set (visited c) then 1 else 0)"

lemma neighbors_unvisited: "n \<in> set (neighbors h ts c) \<Longrightarrow> n \<notin> set (visited c)"
  by (auto simp: neighbors_def)

lemma visited_addCurrent:
  "visited (addCurrent rim c) =
     (if currentId c \<in> set (visited c) then visited c else visited c @ [currentId c])"
  by (simp add: addCurrent_def)

lemma currentId_addCurrent: "currentId (addCurrent rim c) = currentId c"
  by (simp add: addCurrent_def)

lemma chainBody_Continue:
  assumes "chainBody h ts rim c = Continue c'"
  shows "visited c' = visited (addCurrent rim c)"
    and "sortedRimNodes c' = sortedRimNodes (addCurrent rim c)"
    and "currentId c' \<notin> set (visited c')"
proof -
  let ?c1 = "addCurrent rim c"
  from assms have
    "(\<exists>n ns. neighbors h ts ?c1 = n # ns \<and> c' = ?c1\<lparr>currentId := n\<rparr>) \<or>
     (\<exists>u. find (\<lambda>n. state_id n \<notin> set (visited ?c1)) rim = Some u \<and>
          c' = ?c1\<lparr>currentId := state_id u\<rparr>)"
    by (auto simp: chainBody_def Let_def split: list.splits option.splits)
  then show "visited c' = visited ?c1" and "sortedRimNodes c' = sortedRimNodes ?c1"
    by auto
  from \<open>_ \<or> _\<close> show "currentId c' \<notin> set (visited c')"
  proof
    assume "\<exists>n ns. neighbors h ts ?c1 = n # ns \<and> c' = ?c1\<lparr>currentId := n\<rparr>"
    then obtain n ns where n: "neighbors h ts ?c1 = n # ns" and c': "c' = ?c1\<lparr>currentId := n\<rparr>"
      by blast
    from n have "n \<in> set (neighbors h ts ?c1)" by simp
    then have "n \<notin> set (visited ?c1)" by (rule neighbors_unvisited)
    with c' show ?thesis by simp
  next
    assume "\<exists>u. find (\<lambda>n. state_id n \<notin> set (visited ?c1)) rim = Some u \<and>
          c' = ?c1\<lparr>currentId := state_id u\<rparr>"
    then obtain u where u: "find (\<lambda>n. state_id n \<notin> set (visited ?c1)) rim = Some u"
      and c': "c' = ?c1\<lparr>currentId := state_id u\<rparr>"
      by blast
    from u have "state_id u \<notin> set (visited ?c1)"
      by (auto simp: find_Some_iff)
    with c' show ?thesis by simp
  qed
qed

lemma chainBody_Break:
  "chainBody h ts rim c = Break c' \<Longrightarrow>
     c' = addCurrent rim c \<and> (\<forall>n \<in> set rim. state_id n \<in> set (visited c'))"
  by (auto simp: chainBody_def Let_def find_None_iff split: list.splits option.splits)

lemma chainBody_decreases:
  assumes "length (visited c) < length rim" and "chainBody h ts rim c = Continue c'"
  shows "chainMeasure rim c' < chainMeasure rim c"
proof -
  have v: "visited c' = visited (addCurrent rim c)"
    and n: "currentId c' \<notin> set (visited c')"
    using chainBody_Continue [OF assms(2)] by auto
  show ?thesis
    using assms(1) v n by (auto simp: chainMeasure_def visited_addCurrent split: if_splits)
qed

text \<open>
  \<^verbatim>\<open>while (visited.size < rimNodes.length) { ... }\<close>, returning the loop state at exit.
\<close>

function greedyChain :: "string option \<Rightarrow> FSMTransition list \<Rightarrow> FSMState list \<Rightarrow> chain \<Rightarrow> chain" where
  "greedyChain h ts rim c =
     (if length (visited c) < length rim
      then (case chainBody h ts rim c of
              Break c' \<Rightarrow> c'
            | Continue c' \<Rightarrow> greedyChain h ts rim c')
      else c)"
  by pat_completeness auto
termination
  by (relation "measure (\<lambda>(h, ts, rim, c). chainMeasure rim c)")
     (auto simp: chainBody_decreases)

declare greedyChain.simps [simp del]

text \<open>
  The seed: \<^verbatim>\<open>startCandidates.find(id => rimNodes.some(n => n.id === id)) || rimNodes[0].id\<close>;
  \<^verbatim>\<open>||\<close> takes its right operand when \<^verbatim>\<open>find\<close> returns \<^verbatim>\<open>undefined\<close> or the empty
  string. The second argument is \<^verbatim>\<open>rimNodes[0]\<close>: the seed is only computed for a
  non-empty rim.
\<close>

definition startCandidates :: "FSMData \<Rightarrow> string list" where
  "startCandidates d =
     map target
       (filter (\<lambda>t. Some (source t) = hubId d \<and> Some (target t) \<noteq> hubId d) (transitions d))"

definition startId :: "FSMData \<Rightarrow> FSMState \<Rightarrow> string" where
  "startId d first =
     (case find (\<lambda>i. \<exists>n \<in> set (rimNodes d). state_id n = i) (startCandidates d) of
        None \<Rightarrow> state_id first
      | Some found \<Rightarrow> if found = [] then state_id first else found)"

definition rimOrder :: "FSMData \<Rightarrow> FSMState list" where
  "rimOrder d =
     (case rimNodes d of
        [] \<Rightarrow> []
      | first # _ \<Rightarrow>
          sortedRimNodes
            (greedyChain (hubId d) (transitions d) (rimNodes d)
               \<lparr>visited = [], currentId = startId d first, sortedRimNodes = []\<rparr>))"

section \<open>Radial placement (getRadialLayoutElements, step 3)\<close>

text \<open>
  JavaScript numbers that hold coordinates and angles are modelled as real numbers:
  \<^verbatim>\<open>Math.PI\<close>, \<^verbatim>\<open>Math.cos\<close>, \<^verbatim>\<open>Math.sin\<close> and \<^verbatim>\<open>Math.sqrt\<close> are \<open>pi\<close>, \<open>cos\<close>, \<open>sin\<close> and
  \<open>sqrt\<close>; the rounding of IEEE 754 doubles is outside the model. Counters and indices
  are natural numbers.
\<close>

datatype Position = PosLeft | PosTop | PosRight | PosBottom

text \<open>
  A React Flow node, with its \<^verbatim>\<open>data\<close> object flattened into the record. Only the hub
  node carries \<^verbatim>\<open>isInitial\<close>, \<^verbatim>\<open>sourcePosition\<close> and \<^verbatim>\<open>targetPosition\<close>.
\<close>

record Node =
  node_id :: string
  node_type :: string
  node_label :: string
  node_description :: "string option"
  node_isInitial :: "bool option"
  position_x :: real
  position_y :: real
  sourcePosition :: "Position option"
  targetPosition :: "Position option"

definition RADIUS :: real where
  "RADIUS = 380"

definition hubNode :: "FSMData \<Rightarrow> Node list" where
  "hubNode d =
     (case find (\<lambda>s. Some (state_id s) = hubId d) (states d) of
        None \<Rightarrow> []
      | Some hubNodeData \<Rightarrow>
          [\<lparr>node_id = state_id hubNodeData,
            node_type = ''circular'',
            node_label = state_label hubNodeData,
            node_description = state_description hubNodeData,
            node_isInitial = Some (state_type hubNodeData = Some INITIAL),
            position_x = 0,
            position_y = 0,
            sourcePosition = Some PosRight,
            targetPosition = Some PosLeft\<rparr>])"

definition finalAngle :: "nat \<Rightarrow> nat \<Rightarrow> real" where
  "finalAngle index n = (2 * pi * real index) / real n - pi / 2"

definition rimNode :: "nat \<Rightarrow> nat \<times> FSMState \<Rightarrow> Node" where
  "rimNode n = (\<lambda>(index, state).
     \<lparr>node_id = state_id state,
      node_type = ''circular'',
      node_label = state_label state,
      node_description = state_description state,
      node_isInitial = None,
      position_x = RADIUS * cos (finalAngle index n),
      position_y = RADIUS * sin (finalAngle index n),
      sourcePosition = None,
      targetPosition = None\<rparr>)"

definition layoutedNodes :: "FSMData \<Rightarrow> Node list" where
  "layoutedNodes d =
     hubNode d @ map (rimNode (length (rimOrder d))) (enumerate 0 (rimOrder d))"

section \<open>Edge classification (getRadialLayoutElements, step 4)\<close>

text \<open>Decimal rendering of an index, \<^verbatim>\<open>Number.prototype.toString\<close> on a natural number.\<close>

definition digitChar :: "nat \<Rightarrow> char" where
  "digitChar n = ''0123456789'' ! n"

fun toString :: "nat \<Rightarrow> string" where
  "toString n = (if n < 10 then [digitChar n] else toString (n div 10) @ [digitChar (n mod 10)])"

declare toString.simps [simp del]

text \<open>The key \<^verbatim>\<open>`${trans.source}->${trans.target}`\<close> and the key \<^verbatim>\<open>`radial_${i}`\<close>.\<close>

definition edgeKey :: "FSMTransition \<Rightarrow> string" where
  "edgeKey tr = source tr @ ''->'' @ target tr"

definition radialKey :: "nat \<Rightarrow> string" where
  "radialKey i = ''radial_'' @ toString i"

text \<open>
  The two \<^verbatim>\<open>Record<string, number>\<close> objects of the grouping pass, as maps from keys
  to numbers. Every key of the first contains \<^verbatim>\<open>->\<close> and every key of the second
  starts with \<^verbatim>\<open>radial_\<close>, so no key names an inherited property of the object.
\<close>

record groups =
  edgeGroups :: "string \<rightharpoonup> nat"
  edgeIndices :: "string \<rightharpoonup> nat"

text \<open>
  The body of the first \<^verbatim>\<open>forEach\<close>. After \<^verbatim>\<open>if (!edgeGroups[key]) edgeGroups[key] = 0\<close>
  the entry of the key holds the number \<open>n\<close>: zero when the entry was missing or zero,
  the stored number otherwise.
\<close>

definition groupStep :: "groups \<Rightarrow> nat \<times> FSMTransition \<Rightarrow> groups" where
  "groupStep g = (\<lambda>(i, tr).
     let key = edgeKey tr;
         n = (case edgeGroups g key of None \<Rightarrow> 0 | Some c \<Rightarrow> c)
     in \<lparr>edgeGroups = (edgeGroups g)(key \<mapsto> n + 1),
         edgeIndices = (edgeIndices g)(radialKey i \<mapsto> n)\<rparr>)"

definition groupEdges :: "FSMTransition list \<Rightarrow> groups" where
  "groupEdges ts =
     foldl groupStep \<lparr>edgeGroups = Map.empty, edgeIndices = Map.empty\<rparr> (enumerate 0 ts)"

text \<open>\<^verbatim>\<open>Array.prototype.findIndex\<close>: the first index that satisfies the test, or \<open>-1\<close>.\<close>

fun findIndex :: "('a \<Rightarrow> bool) \<Rightarrow> 'a list \<Rightarrow> int" where
  "findIndex P [] = - 1"
| "findIndex P (x # xs) =
     (if P x then 0 else (let r = findIndex P xs in if r = - 1 then - 1 else r + 1))"

text \<open>
  A React Flow edge, with its \<^verbatim>\<open>data\<close> object flattened into the record. The constant
  styling attributes of the source (label style, stroke, marker, z-index) carry no
  information about the layout and are left out.
\<close>

record Edge =
  edge_id :: string
  edge_source :: string
  edge_target :: string
  edge_type :: string
  sourceHandle :: string
  targetHandle :: string
  edge_label :: string
  isManual :: bool
  data_id :: string
  sourceLabel :: "string option"
  targetLabel :: "string option"
  edge_condition :: string
  edge_action :: "string option"
  isHubConnection :: bool
  isSelfLoop :: bool
  isNeighbor :: bool
  edge_hubId :: "string option"
  siblingCount :: nat
  siblingIndex :: nat

definition neighborFlag :: "FSMState list \<Rightarrow> FSMTransition \<Rightarrow> bool" where
  "neighborFlag ring tr =
     (let sIdx = findIndex (\<lambda>n. state_id n = source tr) ring;
          tIdx = findIndex (\<lambda>n. state_id n = target tr) ring
      in if sIdx \<noteq> - 1 \<and> tIdx \<noteq> - 1
         then (let diff = \<bar>sIdx - tIdx\<bar>; len = int (length ring)
               in diff = 1 \<or> diff = len - 1)
         else False)"

definition layoutEdge :: "FSMData \<Rightarrow> nat \<times> FSMTransition \<Rightarrow> Edge" where
  "layoutEdge d = (\<lambda>(i, tr).
     let numericLabel = toString (i + 1);
         selfLoop = (source tr = target tr);
         hubConnection = (Some (source tr) = hubId d \<or> Some (target tr) = hubId d);
         neighbor = (if \<not> hubConnection \<and> \<not> selfLoop then neighborFlag (rimOrder d) tr else False);
         key = edgeKey tr;
         g = groupEdges (transitions d)
     in \<lparr>edge_id = ''radial_'' @ toString i @ ''_'' @ source tr @ ''_'' @ target tr,
         edge_source = source tr,
         edge_target = target tr,
         edge_type = ''radial'',
         sourceHandle = ''center'',
         targetHandle = ''center-t'',
         edge_label = numericLabel,
         isManual = True,
         data_id = numericLabel,
         sourceLabel = map_option node_label (find (\<lambda>n. node_id n = source tr) (layoutedNodes d)),
         targetLabel = map_option node_label (find (\<lambda>n. node_id n = target tr) (layoutedNodes d)),
         edge_condition = condition tr,
         edge_action = action tr,
         isHubConnection = hubConnection,
         isSelfLoop = selfLoop,
         isNeighbor = neighbor,
         edge_hubId = hubId d,
         siblingCount = (case edgeGroups g key of None \<Rightarrow> 1 | Some c \<Rightarrow> if c = 0 then 1 else c),
         siblingIndex = (case edgeIndices g (radialKey i) of None \<Rightarrow> 0 | Some k \<Rightarrow> k)\<rparr>)"

definition layoutedEdges :: "FSMData \<Rightarrow> Edge list" where
  "layoutedEdges d = map (layoutEdge d) (enumerate 0 (transitions d))"

record Layout =
  nodes :: "Node list"
  edges :: "Edge list"

definition getRadialLayoutElements :: "FSMData \<Rightarrow> Layout" where
  "getRadialLayoutElements fsmData =
     \<lparr>nodes = layoutedNodes fsmData, edges = layoutedEdges fsmData\<rparr>"

section \<open>Geometry primitives and edge paths (CustomEdges.tsx)\<close>

definition NODE_RADIUS :: real where
  "NODE_RADIUS = 48"

type_synonym point = "real \<times> real"

text \<open>
  The division in \<^verbatim>\<open>normalize\<close> is only reached when \<open>len\<close> is not zero.
\<close>

definition normalize :: "real \<Rightarrow> real \<Rightarrow> point" where
  "normalize x y =
     (let len = sqrt (x * x + y * y)
      in if len = 0 then (0, 0) else (x / len, y / len))"

definition getPointOnCircle :: "real \<Rightarrow> real \<Rightarrow> real \<Rightarrow> real \<Rightarrow> point" where
  "getPointOnCircle centerX centerY targetX targetY =
     (let dx = targetX - centerX;
          dy = targetY - centerY;
          (nx, ny) = normalize dx dy
      in (centerX + nx * NODE_RADIUS, centerY + ny * NODE_RADIUS))"

definition getMultiEdgeCurvatureOffset :: "real \<Rightarrow> real \<Rightarrow> real \<Rightarrow> real" where
  "getMultiEdgeCurvatureOffset index cnt spacing =
     (if cnt \<le> 1 then 0
      else (let centeredIndex = index - (cnt - 1) / 2 in centeredIndex * spacing))"

text \<open>
  The path of an edge, as the drawing commands of its SVG string: \<^verbatim>\<open>M s C c1 c2 e\<close>,
  \<^verbatim>\<open>M s L e\<close> and \<^verbatim>\<open>M s Q c e\<close>; with it the anchor point of the label.
\<close>

datatype Path = Cubic point point point point | Line point point | Quadratic point point point

record Geometry =
  path :: Path
  labelX :: real
  labelY :: real

text \<open>
  A division of the source whose divisor is not tested first. In JavaScript a division
  by zero raises nothing: it yields \<^verbatim>\<open>NaN\<close> or an infinity, which then reaches the
  path string. The model makes that outcome a value of its own, \<open>DivisionByZero\<close>,
  instead of the number that \<open>x / 0\<close> denotes in HOL.
\<close>

datatype num_error = DivisionByZero

definition divide_checked :: "real \<Rightarrow> real \<Rightarrow> num_error + real" where
  "divide_checked a b = (if b = 0 then Inl DivisionByZero else Inr (a / b))"

text \<open>
  The fields of \<^verbatim>\<open>data\<close> that \<^verbatim>\<open>RadialEdge\<close> reads, after the defaults of its
  destructuring (\<^verbatim>\<open>siblingCount = 1\<close>, \<^verbatim>\<open>siblingIndex = 0\<close>, \<^verbatim>\<open>isStraight = false\<close>).
\<close>

record EdgeData =
  data_isSelfLoop :: bool
  data_siblingCount :: nat
  data_siblingIndex :: nat
  data_isStraight :: bool

definition OFFSET_ANGLE :: real where
  "OFFSET_ANGLE = 6 / 10"

definition selfLoopGeometry :: "real \<Rightarrow> real \<Rightarrow> nat \<Rightarrow> Geometry" where
  "selfLoopGeometry sourceX sourceY sibIndex =
     (let (nx, ny) = normalize sourceX sourceY;
          LOOP_SIZE = 70 + real sibIndex * 15;
          cosA = cos OFFSET_ANGLE;
          sinA = sin OFFSET_ANGLE;
          sx = nx * cosA + ny * sinA;
          sy = - nx * sinA + ny * cosA;
          ex = nx * cosA - ny * sinA;
          ey = nx * sinA + ny * cosA;
          startX = sourceX + sx * NODE_RADIUS;
          startY = sourceY + sy * NODE_RADIUS;
          endX = sourceX + ex * NODE_RADIUS;
          endY = sourceY + ey * NODE_RADIUS;
          c1x = startX + sx * LOOP_SIZE;
          c1y = startY + sy * LOOP_SIZE;
          c2x = endX + ex * LOOP_SIZE;
          c2y = endY + ey * LOOP_SIZE
      in \<lparr>path = Cubic (startX, startY) (c1x, c1y) (c2x, c2y) (endX, endY),
          labelX = 0.125 * startX + 0.375 * c1x + 0.375 * c2x + 0.125 * endX,
          labelY = 0.125 * startY + 0.375 * c1y + 0.375 * c2y + 0.125 * endY\<rparr>)"

definition straightGeometry :: "point \<Rightarrow> point \<Rightarrow> Geometry" where
  "straightGeometry start end =
     \<lparr>path = Line start end,
      labelX = (fst start + fst end) / 2,
      labelY = (snd start + snd end) / 2\<rparr>"

definition curvedGeometry :: "point \<Rightarrow> point \<Rightarrow> real \<Rightarrow> num_error + Geometry" where
  "curvedGeometry start end curvatureOffset =
     (let mx = (fst start + fst end) / 2;
          my = (snd start + snd end) / 2;
          dx = fst end - fst start;
          dy = snd end - snd start;
          len = sqrt (dx * dx + dy * dy)
      in case (divide_checked (- dy) len, divide_checked dx len) of
           (Inr nx, Inr ny) \<Rightarrow>
             (let archHeight = min 80 (max 30 (len * 0.15)) + curvatureOffset;
                  cx = mx + nx * archHeight;
                  cy = my + ny * archHeight
              in Inr \<lparr>path = Quadratic start (cx, cy) end,
                      labelX = 0.25 * fst start + 0.5 * cx + 0.25 * fst end,
                      labelY = 0.25 * snd start + 0.5 * cy + 0.25 * snd end\<rparr>)
         | _ \<Rightarrow> Inl DivisionByZero)"

text \<open>
  The geometry computed by \<^verbatim>\<open>RadialEdge\<close> from the coordinates of the two handles.
  The component returns \<^verbatim>\<open>null\<close> when a coordinate is \<^verbatim>\<open>undefined\<close>: that is the
  result \<open>None\<close>.
\<close>

definition radialGeometry :: "real \<Rightarrow> real \<Rightarrow> real \<Rightarrow> real \<Rightarrow> EdgeData \<Rightarrow> num_error + Geometry" where
  "radialGeometry sourceX sourceY targetX targetY dat =
     (let curvatureOffset =
            getMultiEdgeCurvatureOffset (real (data_siblingIndex dat)) (real (data_siblingCount dat)) 50
      in if data_isSelfLoop dat
         then Inr (selfLoopGeometry sourceX sourceY (data_siblingIndex dat))
         else (let start = getPointOnCircle sourceX sourceY targetX targetY;
                   end = getPointOnCircle targetX targetY sourceX sourceY
               in if data_isStraight dat
                  then Inr (straightGeometry start end)
                  else curvedGeometry start end curvatureOffset))"

definition RadialEdge ::
  "real option \<Rightarrow> real option \<Rightarrow> real option \<Rightarrow> real option \<Rightarrow> EdgeData \<Rightarrow> (num_error + Geometry) option" where
  "RadialEdge sourceX sourceY targetX targetY dat =
     (case (sourceX, sourceY, targetX, targetY) of
        (Some sx, Some sy, Some tx, Some ty) \<Rightarrow> Some (radialGeometry sx sy tx ty dat)
      | _ \<Rightarrow> None)"

section \<open>Vocabulary of the properties\<close>

text \<open>
  The loop of the rim ordering once more, with a budget of iterations: \<open>None\<close> means that
  the budget ran out while the loop condition still held.
\<close>

fun chainRun :: "nat \<Rightarrow> string option \<Rightarrow> FSMTransition list \<Rightarrow> FSMState list \<Rightarrow> chain \<Rightarrow> chain option" where
  "chainRun 0 h ts rim c = (if length (visited c) < length rim then None else Some c)"
| "chainRun (Suc fuel) h ts rim c =
     (if length (visited c) < length rim
      then (case chainBody h ts rim c of
              Break c' \<Rightarrow> Some c'
            | Continue c' \<Rightarrow> chainRun fuel h ts rim c')
      else Some c)"

text \<open>
  The invariant of the loop on every input: \<^verbatim>\<open>visited\<close> has no duplicates, and the
  nodes pushed so far are the rim nodes of the visited identifiers that name a rim node,
  in the order of their visit.
\<close>

definition chainInv :: "FSMState list \<Rightarrow> chain \<Rightarrow> bool" where
  "chainInv rim c \<longleftrightarrow>
     distinct (visited c) \<and>
     map state_id (sortedRimNodes c) = filter (\<lambda>i. i \<in> state_id ` set rim) (visited c) \<and>
     set (sortedRimNodes c) \<subseteq> set rim"

text \<open>
  Referential integrity as far as the loop depends on it: a transition that leaves a rim
  node and does not lead to the hub leads to a rim node. Under it the loop only ever
  visits identifiers of rim nodes.
\<close>

definition wellTargeted :: "string option \<Rightarrow> FSMTransition list \<Rightarrow> FSMState list \<Rightarrow> bool" where
  "wellTargeted h ts rim \<longleftrightarrow>
     (\<forall>t \<in> set ts. source t \<in> state_id ` set rim \<and> Some (target t) \<noteq> h
         \<longrightarrow> target t \<in> state_id ` set rim)"

definition closedInv :: "FSMState list \<Rightarrow> chain \<Rightarrow> bool" where
  "closedInv rim c \<longleftrightarrow>
     set (visited c) \<subseteq> state_id ` set rim \<and> currentId c \<in> state_id ` set rim"

text \<open>Euclidean distance, and the two end points of a path.\<close>

definition distance :: "point \<Rightarrow> point \<Rightarrow> real" where
  "distance p q = sqrt ((fst p - fst q)\<^sup>2 + (snd p - snd q)\<^sup>2)"

fun pathStart :: "Path \<Rightarrow> point" where
  "pathStart (Cubic s c1 c2 e) = s"
| "pathStart (Line s e) = s"
| "pathStart (Quadratic s c e) = s"

fun pathEnd :: "Path \<Rightarrow> point" where
  "pathEnd (Cubic s c1 c2 e) = e"
| "pathEnd (Line s e) = e"
| "pathEnd (Quadratic s c e) = e"

text \<open>Concrete inputs: short forms for states, transitions and graph descriptions.\<close>

abbreviation mkState :: "string \<Rightarrow> string \<Rightarrow> FSMState" where
  "mkState i l \<equiv> \<lparr>state_id = i, state_label = l, state_type = None, state_description = None\<rparr>"

abbreviation mkTransition :: "string \<Rightarrow> string \<Rightarrow> FSMTransition" where
  "mkTransition a b \<equiv> \<lparr>source = a, target = b, condition = ''go'', action = None\<rparr>"

abbreviation mkData :: "FSMState list \<Rightarrow> FSMTransition list \<Rightarrow> FSMData" where
  "mkData ss ts \<equiv>
     \<lparr>moduleName = ''fsm'', clockSignal = None, resetSignal = None, states = ss, transitions = ts\<rparr>"

text \<open>
  Scenario A of the specification: states IDLE, RUN, DONE and the transitions
  IDLE to RUN, RUN to DONE, DONE to IDLE.
\<close>

definition scenarioA :: FSMData where
  "scenarioA =
     mkData [mkState ''S0'' ''idle'', mkState ''S1'' ''RUN'', mkState ''S2'' ''DONE'']
       [mkTransition ''S0'' ''S1'', mkTransition ''S1'' ''S2'', mkTransition ''S2'' ''S0'']"

lemmas hub_eval = hubId_def labelHubId_def isHubLabel_def toUpperCase_def toUpperChar_def
  HUB_LABELS_def falsy_def sortedByDegree_def getDegree_def

lemmas rim_eval = rimNodes_def rimOrder_def startId_def startCandidates_def
  greedyChain.simps chainBody_def addCurrent_def neighbors_def

section \<open>Hub selection: lemmas\<close>

lemma hubId_empty: "states d = [] \<Longrightarrow> hubId d = None"
  by (simp add: hubId_def labelHubId_def falsy_def sortedByDegree_def)

lemma hubId_single: "states d = [s] \<Longrightarrow> hubId d = Some (state_id s)"
  by (simp add: hubId_def labelHubId_def falsy_def sortedByDegree_def split: option.splits)

lemma find_filter_hd: "find P xs = (case filter P xs of [] \<Rightarrow> None | x # _ \<Rightarrow> Some x)"
  by (induction xs) auto

lemma hd_sort_key:
  fixes f :: "'a \<Rightarrow> int"
  assumes "xs \<noteq> []"
  obtains s rest where "sort_key f xs = s # rest" "s \<in> set xs" "\<forall>x \<in> set xs. f s \<le> f x"
    "find (\<lambda>x. f x = f s) xs = Some s"
proof -
  from assms have "sort_key f xs \<noteq> []"
    by (metis length_sort length_0_conv)
  then obtain s rest where sr: "sort_key f xs = s # rest" by (cases "sort_key f xs") auto
  have "set (sort_key f xs) = set xs" by simp
  with sr have mem: "s \<in> set xs" by (metis list.set_intros(1))
  have "sorted (map f (sort_key f xs))" by (rule sorted_sort_key)
  with sr have "\<forall>x \<in> set rest. f s \<le> f x" by simp
  with sr \<open>set (sort_key f xs) = set xs\<close> have le: "\<forall>x \<in> set xs. f s \<le> f x"
    by (metis order_refl set_ConsD)
  have "filter (\<lambda>y. f y = f s) xs = filter (\<lambda>y. f y = f s) (sort_key f xs)"
    by (rule sort_key_stable [symmetric])
  also have "\<dots> = s # filter (\<lambda>y. f y = f s) rest" using sr by simp
  finally have "find (\<lambda>x. f x = f s) xs = Some s" by (simp add: find_filter_hd)
  with sr mem le show thesis using that by blast
qed

lemma hubId_by_label:
  "find isHubLabel (states d) = Some s \<Longrightarrow> state_id s \<noteq> [] \<Longrightarrow> hubId d = Some (state_id s)"
  by (simp add: hubId_def labelHubId_def falsy_def)

lemma hubId_by_degree:
  assumes "falsy (labelHubId d)" and "states d \<noteq> []"
  shows "\<exists>s. hubId d = Some (state_id s) \<and> s \<in> set (states d) \<and>
           (\<forall>x \<in> set (states d).
               getDegree (state_id x) (transitions d) \<le> getDegree (state_id s) (transitions d)) \<and>
           find (\<lambda>x. getDegree (state_id x) (transitions d) = getDegree (state_id s) (transitions d))
             (states d) = Some s"
proof -
  let ?f = "\<lambda>s. - int (getDegree (state_id s) (transitions d))"
  obtain s rest where s: "sort_key ?f (states d) = s # rest" "s \<in> set (states d)"
    "\<forall>x \<in> set (states d). ?f s \<le> ?f x" "find (\<lambda>x. ?f x = ?f s) (states d) = Some s"
    using hd_sort_key [OF assms(2), of ?f] by blast
  have "hubId d = Some (state_id s)"
    using assms(1) s(1) by (simp add: hubId_def sortedByDegree_def)
  with s(2,3,4) show ?thesis by auto
qed

lemma hubId_in_states:
  assumes "states d \<noteq> []"
  shows "\<exists>s \<in> set (states d). hubId d = Some (state_id s)"
proof (cases "falsy (labelHubId d)")
  case True
  then show ?thesis using hubId_by_degree [OF True assms] by blast
next
  case False
  then obtain s where "find isHubLabel (states d) = Some s"
    by (auto simp: labelHubId_def falsy_def split: option.splits)
  moreover from this have "s \<in> set (states d)" by (auto simp: find_Some_iff)
  ultimately show ?thesis using False by (auto simp: hubId_def labelHubId_def)
qed

lemma hubNode_present:
  assumes "states d \<noteq> []"
  shows "\<exists>h. hubNode d = [h] \<and> Some (node_id h) = hubId d \<and> position_x h = 0 \<and> position_y h = 0"
proof -
  from hubId_in_states [OF assms] obtain s where "s \<in> set (states d)" "hubId d = Some (state_id s)"
    by blast
  then have "find (\<lambda>s. Some (state_id s) = hubId d) (states d) \<noteq> None"
    by (auto simp: find_None_iff)
  then obtain hd where f: "find (\<lambda>s. Some (state_id s) = hubId d) (states d) = Some hd" by auto
  then have "Some (state_id hd) = hubId d" by (auto simp: find_Some_iff)
  with f show ?thesis by (simp add: hubNode_def)
qed

lemma rimOrder_nonempty_states: "rimOrder d \<noteq> [] \<Longrightarrow> states d \<noteq> []"
  by (auto simp: rimOrder_def rimNodes_def)

lemma hubId_cong:
  assumes "states d1 = states d2" and "transitions d1 = transitions d2"
  shows "hubId d1 = hubId d2"
  using assms by (simp add: hubId_def labelHubId_def sortedByDegree_def)

section \<open>Rim ordering: lemmas\<close>

lemma find_state_id:
  "find (\<lambda>n. state_id n = i) rim = None \<longleftrightarrow> i \<notin> state_id ` set rim"
  by (auto simp: find_None_iff)

lemma find_state_id_Some:
  "find (\<lambda>n. state_id n = i) rim = Some node \<Longrightarrow> state_id node = i \<and> node \<in> set rim"
  by (auto simp: find_Some_iff)

lemma chainInv_addCurrent:
  assumes "chainInv rim c"
  shows "chainInv rim (addCurrent rim c)"
proof (cases "find (\<lambda>n. state_id n = currentId c) rim")
  case None
  then have "currentId c \<notin> state_id ` set rim" by (simp add: find_state_id)
  with assms None show ?thesis by (simp add: chainInv_def addCurrent_def)
next
  case (Some node)
  then have n: "state_id node = currentId c" "node \<in> set rim"
    using find_state_id_Some by blast+
  then have "currentId c \<in> state_id ` set rim" by force
  with assms Some n show ?thesis by (simp add: chainInv_def addCurrent_def)
qed

lemma chainInv_chainBody:
  assumes "chainInv rim c"
  shows "chainBody h ts rim c = Continue c' \<Longrightarrow> chainInv rim c'"
    and "chainBody h ts rim c = Break c' \<Longrightarrow> chainInv rim c'"
  using chainInv_addCurrent [OF assms] chainBody_Continue [of h ts rim c c'] chainBody_Break [of h ts rim c c']
  by (auto simp: chainInv_def)

lemma chainInv_greedyChain: "chainInv rim c \<Longrightarrow> chainInv rim (greedyChain h ts rim c)"
proof (induction h ts rim c rule: greedyChain.induct)
  case (1 h ts rim c)
  show ?case
  proof (cases "length (visited c) < length rim")
    case False
    then show ?thesis using "1.prems" by (simp add: greedyChain.simps [of h ts rim c])
  next
    case True
    show ?thesis
    proof (cases "chainBody h ts rim c")
      case (Break c')
      then show ?thesis using True "1.prems" chainInv_chainBody(2)
        by (simp add: greedyChain.simps [of h ts rim c])
    next
      case (Continue c')
      then have "chainInv rim c'" using "1.prems" chainInv_chainBody(1) by blast
      then have "chainInv rim (greedyChain h ts rim c')"
        using "1.IH" True Continue by blast
      then show ?thesis using True Continue
        by (simp add: greedyChain.simps [of h ts rim c])
    qed
  qed
qed

lemma distinct_rimOrder: "distinct (map state_id (rimOrder d))"
proof (cases "rimNodes d")
  case Nil
  then show ?thesis by (simp add: rimOrder_def)
next
  case (Cons first rest)
  let ?c0 = "\<lparr>visited = [], currentId = startId d first, sortedRimNodes = []\<rparr>"
  have "chainInv (rimNodes d) ?c0" by (simp add: chainInv_def)
  then have "chainInv (rimNodes d) (greedyChain (hubId d) (transitions d) (rimNodes d) ?c0)"
    by (rule chainInv_greedyChain)
  then show ?thesis using Cons by (simp add: rimOrder_def chainInv_def)
qed

lemma set_rimOrder: "set (rimOrder d) \<subseteq> set (rimNodes d)"
proof (cases "rimNodes d")
  case Nil
  then show ?thesis by (simp add: rimOrder_def)
next
  case (Cons first rest)
  let ?c0 = "\<lparr>visited = [], currentId = startId d first, sortedRimNodes = []\<rparr>"
  have "chainInv (rimNodes d) ?c0" by (simp add: chainInv_def)
  then have "chainInv (rimNodes d) (greedyChain (hubId d) (transitions d) (rimNodes d) ?c0)"
    by (rule chainInv_greedyChain)
  then show ?thesis using Cons by (simp add: rimOrder_def chainInv_def)
qed

lemma chainBody_Continue_current:
  assumes "chainBody h ts rim c = Continue c'"
  shows "currentId c' \<in> set (neighbors h ts (addCurrent rim c)) \<or> currentId c' \<in> state_id ` set rim"
proof -
  let ?c1 = "addCurrent rim c"
  from assms have
    "(\<exists>n ns. neighbors h ts ?c1 = n # ns \<and> c' = ?c1\<lparr>currentId := n\<rparr>) \<or>
     (\<exists>u. find (\<lambda>n. state_id n \<notin> set (visited ?c1)) rim = Some u \<and>
          c' = ?c1\<lparr>currentId := state_id u\<rparr>)"
    by (auto simp: chainBody_def Let_def split: list.splits option.splits)
  then show ?thesis
  proof
    assume "\<exists>n ns. neighbors h ts ?c1 = n # ns \<and> c' = ?c1\<lparr>currentId := n\<rparr>"
    then show ?thesis by auto
  next
    assume "\<exists>u. find (\<lambda>n. state_id n \<notin> set (visited ?c1)) rim = Some u \<and>
          c' = ?c1\<lparr>currentId := state_id u\<rparr>"
    then obtain u where u: "find (\<lambda>n. state_id n \<notin> set (visited ?c1)) rim = Some u"
      and c': "c' = ?c1\<lparr>currentId := state_id u\<rparr>"
      by blast
    from u have "u \<in> set rim" by (auto simp: find_Some_iff)
    with c' show ?thesis by simp
  qed
qed

lemma neighbors_wellTargeted:
  assumes "wellTargeted h ts rim" and "currentId c \<in> state_id ` set rim"
    and "n \<in> set (neighbors h ts c)"
  shows "n \<in> state_id ` set rim"
proof -
  from assms(3) obtain t where "t \<in> set ts" "source t = currentId c" "Some (target t) \<noteq> h" "n = target t"
    by (auto simp: neighbors_def)
  with assms(1,2) show ?thesis unfolding wellTargeted_def by metis
qed

lemma closedInv_addCurrent: "closedInv rim c \<Longrightarrow> closedInv rim (addCurrent rim c)"
  by (auto simp: closedInv_def visited_addCurrent currentId_addCurrent)

lemma closedInv_chainBody:
  assumes "wellTargeted h ts rim" and "closedInv rim c"
  shows "chainBody h ts rim c = Continue c' \<Longrightarrow> closedInv rim c'"
    and "chainBody h ts rim c = Break c' \<Longrightarrow> closedInv rim c'"
proof -
  have c1: "closedInv rim (addCurrent rim c)" using assms(2) by (rule closedInv_addCurrent)
  show "closedInv rim c'" if "chainBody h ts rim c = Break c'"
    using chainBody_Break [OF that] c1 by simp
  show "closedInv rim c'" if "chainBody h ts rim c = Continue c'"
  proof -
    have v: "visited c' = visited (addCurrent rim c)" using chainBody_Continue(1) [OF that] .
    have "currentId c' \<in> state_id ` set rim"
      using chainBody_Continue_current [OF that] neighbors_wellTargeted [OF assms(1)] c1
      by (auto simp: closedInv_def)
    with v c1 show ?thesis by (simp add: closedInv_def)
  qed
qed

lemma closedInv_greedyChain:
  "wellTargeted h ts rim \<Longrightarrow> closedInv rim c \<Longrightarrow> closedInv rim (greedyChain h ts rim c)"
proof (induction h ts rim c rule: greedyChain.induct)
  case (1 h ts rim c)
  show ?case
  proof (cases "length (visited c) < length rim")
    case False
    then show ?thesis using "1.prems" by (simp add: greedyChain.simps [of h ts rim c])
  next
    case True
    show ?thesis
    proof (cases "chainBody h ts rim c")
      case (Break c')
      then show ?thesis using True "1.prems" closedInv_chainBody(2)
        by (simp add: greedyChain.simps [of h ts rim c])
    next
      case (Continue c')
      then have "closedInv rim c'" using "1.prems" closedInv_chainBody(1) by blast
      then have "closedInv rim (greedyChain h ts rim c')"
        using "1.IH" True Continue "1.prems"(1) by blast
      then show ?thesis using True Continue
        by (simp add: greedyChain.simps [of h ts rim c])
    qed
  qed
qed

lemma greedyChain_exit:
  "length rim \<le> length (visited (greedyChain h ts rim c)) \<or>
   (\<forall>n \<in> set rim. state_id n \<in> set (visited (greedyChain h ts rim c)))"
proof (induction h ts rim c rule: greedyChain.induct)
  case (1 h ts rim c)
  show ?case
  proof (cases "length (visited c) < length rim")
    case False
    then show ?thesis by (simp add: greedyChain.simps [of h ts rim c])
  next
    case True
    show ?thesis
    proof (cases "chainBody h ts rim c")
      case (Break c')
      have "\<forall>n \<in> set rim. state_id n \<in> set (visited c')"
        using chainBody_Break [OF Break] by blast
      then show ?thesis using True Break
        by (simp add: greedyChain.simps [of h ts rim c])
    next
      case (Continue c')
      then show ?thesis using True "1.IH" [OF True Continue]
        by (simp add: greedyChain.simps [of h ts rim c])
    qed
  qed
qed

lemma greedyChain_complete:
  assumes "wellTargeted h ts rim" and "closedInv rim c" and "chainInv rim c"
  shows "set (visited (greedyChain h ts rim c)) = state_id ` set rim"
proof -
  let ?r = "greedyChain h ts rim c"
  have sub: "set (visited ?r) \<subseteq> state_id ` set rim"
    using closedInv_greedyChain [OF assms(1,2)] by (simp add: closedInv_def)
  have dist: "distinct (visited ?r)"
    using chainInv_greedyChain [OF assms(3)] by (simp add: chainInv_def)
  from greedyChain_exit [of rim h ts c] show ?thesis
  proof
    assume len: "length rim \<le> length (visited ?r)"
    have "card (state_id ` set rim) \<le> length rim"
      by (metis card_image_le card_length le_trans List.finite_set)
    also have "\<dots> \<le> card (set (visited ?r))"
      using len dist by (simp add: distinct_card)
    finally show ?thesis using sub by (simp add: card_seteq)
  next
    assume "\<forall>n \<in> set rim. state_id n \<in> set (visited ?r)"
    with sub show ?thesis by auto
  qed
qed

lemma startId_rim:
  assumes "rimNodes d = first # rest"
  shows "startId d first \<in> state_id ` set (rimNodes d)"
proof (cases "find (\<lambda>i. \<exists>n \<in> set (rimNodes d). state_id n = i) (startCandidates d)")
  case None
  then show ?thesis using assms by (simp add: startId_def)
next
  case (Some i)
  then have "\<exists>n \<in> set (rimNodes d). state_id n = i" by (auto simp: find_Some_iff)
  then have "i \<in> state_id ` set (rimNodes d)" by auto
  then show ?thesis using Some assms by (auto simp: startId_def)
qed

lemma chainBody_progress:
  assumes "currentId c \<notin> set (visited c)"
  shows "chainBody h ts rim c = Break c' \<Longrightarrow> visited c' = visited c @ [currentId c]"
    and "chainBody h ts rim c = Continue c' \<Longrightarrow>
           visited c' = visited c @ [currentId c] \<and> currentId c' \<notin> set (visited c')"
  using assms chainBody_Break [of h ts rim c c'] chainBody_Continue [of h ts rim c c']
  by (auto simp: visited_addCurrent)


lemma chainRun_enough:
  "currentId c \<notin> set (visited c) \<Longrightarrow> length rim - length (visited c) \<le> fuel \<Longrightarrow>
     chainRun fuel h ts rim c = Some (greedyChain h ts rim c)"
proof (induction fuel arbitrary: c)
  case 0
  then show ?case by (simp add: greedyChain.simps [of h ts rim c])
next
  case (Suc fuel)
  show ?case
  proof (cases "length (visited c) < length rim")
    case False
    then show ?thesis by (simp add: greedyChain.simps [of h ts rim c])
  next
    case True
    show ?thesis
    proof (cases "chainBody h ts rim c")
      case (Break c')
      with True show ?thesis by (simp add: greedyChain.simps [of h ts rim c])
    next
      case (Continue c')
      have p: "visited c' = visited c @ [currentId c]" "currentId c' \<notin> set (visited c')"
        using chainBody_progress(2) [OF Suc.prems(1) Continue] by auto
      then have "length rim - length (visited c') \<le> fuel" using Suc.prems(2) by simp
      with p(2) have "chainRun fuel h ts rim c' = Some (greedyChain h ts rim c')"
        by (rule Suc.IH)
      with True Continue show ?thesis by (simp add: greedyChain.simps [of h ts rim c])
    qed
  qed
qed


lemma greedyChain_length:
  "length (visited c) \<le> length rim \<Longrightarrow> length (visited (greedyChain h ts rim c)) \<le> length rim"
proof (induction h ts rim c rule: greedyChain.induct)
  case (1 h ts rim c)
  show ?case
  proof (cases "length (visited c) < length rim")
    case False
    then show ?thesis using "1.prems" by (simp add: greedyChain.simps [of h ts rim c])
  next
    case True
    show ?thesis
    proof (cases "chainBody h ts rim c")
      case (Break c')
      then have "c' = addCurrent rim c" using chainBody_Break by blast
      then show ?thesis using True Break
        by (simp add: greedyChain.simps [of h ts rim c] visited_addCurrent)
    next
      case (Continue c')
      then have "visited c' = visited (addCurrent rim c)" by (rule chainBody_Continue(1))
      then have "length (visited c') \<le> length rim" using True by (simp add: visited_addCurrent)
      then have "length (visited (greedyChain h ts rim c')) \<le> length rim"
        using True Continue "1.IH" by blast
      then show ?thesis using True Continue
        by (simp add: greedyChain.simps [of h ts rim c])
    qed
  qed
qed

lemma rimOrder_cong:
  assumes "states d1 = states d2" and "transitions d1 = transitions d2"
  shows "rimOrder d1 = rimOrder d2"
proof -
  have h: "hubId d1 = hubId d2" using assms by (rule hubId_cong)
  have r: "rimNodes d1 = rimNodes d2" using assms(1) h by (simp add: rimNodes_def)
  have c: "startCandidates d1 = startCandidates d2"
    using assms(2) h by (simp add: startCandidates_def)
  have s: "startId d1 = startId d2" using r c by (simp add: startId_def fun_eq_iff)
  show ?thesis unfolding rimOrder_def h r s assms(2) by (rule refl)
qed

section \<open>Placement and edges: lemmas\<close>

lemma circle_point_distance:
  fixes r a :: real
  assumes "0 \<le> r"
  shows "sqrt ((r * cos a)\<^sup>2 + (r * sin a)\<^sup>2) = r"
proof -
  have "(r * cos a)\<^sup>2 + (r * sin a)\<^sup>2 = r\<^sup>2 * (cos a)\<^sup>2 + r\<^sup>2 * (sin a)\<^sup>2"
    by (simp only: power_mult_distrib)
  also have "\<dots> = r\<^sup>2 * ((cos a)\<^sup>2 + (sin a)\<^sup>2)"
    by (simp only: distrib_left)
  also have "\<dots> = r\<^sup>2" by simp
  finally show ?thesis using assms by simp
qed

lemma wrap_gap:
  fixes m :: real
  assumes "m \<noteq> 0"
  shows "2 * pi * 0 / m - pi / 2 + 2 * pi - (2 * pi * (m - 1) / m - pi / 2) = 2 * pi / m"
  using assms by (simp add: field_simps)

lemma findIndex_nth:
  "distinct (map f xs) \<Longrightarrow> a < length xs \<Longrightarrow> findIndex (\<lambda>n. f n = f (xs ! a)) xs = int a"
proof (induction xs arbitrary: a)
  case Nil
  then show ?case by simp
next
  case (Cons x xs)
  show ?case
  proof (cases a)
    case 0
    then show ?thesis by simp
  next
    case (Suc k)
    with Cons.prems have k: "k < length xs" and d: "distinct (map f xs)" by auto
    from Cons.prems Suc k have "f x \<noteq> f (xs ! k)" by auto
    moreover have "findIndex (\<lambda>n. f n = f (xs ! k)) xs = int k" using d k by (rule Cons.IH)
    ultimately show ?thesis using Suc by (simp add: Let_def)
  qed
qed

lemma layoutedEdges_nth:
  "i < length (transitions d) \<Longrightarrow> layoutedEdges d ! i = layoutEdge d (i, transitions d ! i)"
  by (simp add: layoutedEdges_def nth_enumerate_eq)

lemma offset_sum_zero:
  "(\<Sum>i<k. getMultiEdgeCurvatureOffset (real i) (real k) spacing) = 0"
proof (cases "k \<le> 1")
  case True
  then show ?thesis by (simp add: getMultiEdgeCurvatureOffset_def)
next
  case False
  then have k: "\<not> real k \<le> 1" by simp
  have "(\<Sum>i<k. getMultiEdgeCurvatureOffset (real i) (real k) spacing)
      = (\<Sum>i<k. (real i - (real k - 1) / 2) * spacing)"
    using k by (simp add: getMultiEdgeCurvatureOffset_def Let_def)
  also have "\<dots> = ((\<Sum>i<k. real i) - real k * ((real k - 1) / 2)) * spacing"
    by (simp add: sum_distrib_right [symmetric] sum_subtractf)
  also have "(\<Sum>i<k. real i) = real k * (real k - 1) / 2"
  proof (induction k)
    case 0
    then show ?case by simp
  next
    case (Suc k)
    then show ?case by (simp add: field_simps)
  qed
  finally show ?thesis by simp
qed

lemma offset_three:
  "getMultiEdgeCurvatureOffset 0 3 spacing = - spacing \<and>
   getMultiEdgeCurvatureOffset 1 3 spacing = 0 \<and>
   getMultiEdgeCurvatureOffset 2 3 spacing = spacing"
  by (simp add: getMultiEdgeCurvatureOffset_def Let_def)

lemma groupEdges_snoc:
  "groupEdges (ts @ [t]) = groupStep (groupEdges ts) (length ts, t)"
  by (simp add: groupEdges_def enumerate_append_eq)

lemma edgeGroups_count:
  "edgeGroups (groupEdges ts) key =
     (if filter (\<lambda>t. edgeKey t = key) ts = [] then None
      else Some (length (filter (\<lambda>t. edgeKey t = key) ts)))"
proof (induction ts arbitrary: key rule: rev_induct)
  case Nil
  then show ?case by (simp add: groupEdges_def)
next
  case (snoc t ts)
  have n: "(case edgeGroups (groupEdges ts) (edgeKey t) of None \<Rightarrow> 0 | Some c \<Rightarrow> c)
      = length (filter (\<lambda>u. edgeKey u = edgeKey t) ts)"
    by (simp add: snoc)
  show ?case
  proof (cases "key = edgeKey t")
    case True
    then show ?thesis by (simp add: groupEdges_snoc groupStep_def Let_def n)
  next
    case False
    then show ?thesis by (simp add: groupEdges_snoc groupStep_def Let_def snoc)
  qed
qed

lemma toString_nonempty: "toString n \<noteq> []"
  by (subst toString.simps) simp

lemma digitChar_inj: "a < 10 \<Longrightarrow> b < 10 \<Longrightarrow> digitChar a = digitChar b \<Longrightarrow> a = b"
proof -
  assume a: "a < 10" and b: "b < 10" and e: "digitChar a = digitChar b"
  have d: "distinct ''0123456789''" by simp
  have "length ''0123456789'' = 10" by simp
  with a b e d show "a = b" unfolding digitChar_def
    by (metis nth_eq_iff_index_eq)
qed

lemma toString_inj: "toString m = toString n \<Longrightarrow> m = n"
proof (induction m arbitrary: n rule: toString.induct)
  case (1 m)
  show ?case
  proof (cases "m < 10")
    case True
    then have m: "toString m = [digitChar m]" by (simp add: toString.simps [of m])
    show ?thesis
    proof (cases "n < 10")
      case True
      then have "toString n = [digitChar n]" by (simp add: toString.simps [of n])
      with m "1.prems" have "digitChar m = digitChar n" by simp
      with \<open>m < 10\<close> True show ?thesis by (rule digitChar_inj)
    next
      case False
      then have "toString n = toString (n div 10) @ [digitChar (n mod 10)]"
        by (simp add: toString.simps [of n])
      with m "1.prems" toString_nonempty [of "n div 10"] show ?thesis by simp
    qed
  next
    case False
    then have m: "toString m = toString (m div 10) @ [digitChar (m mod 10)]"
      by (simp add: toString.simps [of m])
    show ?thesis
    proof (cases "n < 10")
      case True
      then have "toString n = [digitChar n]" by (simp add: toString.simps [of n])
      with m "1.prems" toString_nonempty [of "m div 10"] show ?thesis by simp
    next
      case nf: False
      then have "toString n = toString (n div 10) @ [digitChar (n mod 10)]"
        by (simp add: toString.simps [of n])
      with m "1.prems" have e: "toString (m div 10) = toString (n div 10)"
        and d: "digitChar (m mod 10) = digitChar (n mod 10)" by simp_all
      from e have "m div 10 = n div 10" using "1.IH" False by blast
      moreover have "m mod 10 = n mod 10" using d by (intro digitChar_inj) simp_all
      ultimately show ?thesis by (metis div_mult_mod_eq)
    qed
  qed
qed

lemma radialKey_inj: "radialKey i = radialKey j \<longleftrightarrow> i = j"
  by (auto simp: radialKey_def dest: toString_inj)

lemma edgeIndices_rank:
  "edgeIndices (groupEdges ts) (radialKey i) =
     (if i < length ts
      then Some (length (filter (\<lambda>t. edgeKey t = edgeKey (ts ! i)) (take i ts)))
      else None)"
proof (induction ts rule: rev_induct)
  case Nil
  then show ?case by (simp add: groupEdges_def)
next
  case (snoc t ts)
  have n: "(case edgeGroups (groupEdges ts) (edgeKey t) of None \<Rightarrow> 0 | Some c \<Rightarrow> c)
      = length (filter (\<lambda>u. edgeKey u = edgeKey t) ts)"
    by (simp add: edgeGroups_count)
  show ?case
  proof (cases "i = length ts")
    case True
    then show ?thesis by (simp add: groupEdges_snoc groupStep_def Let_def n)
  next
    case False
    then show ?thesis using snoc
      by (simp add: groupEdges_snoc groupStep_def Let_def radialKey_inj nth_append)
  qed
qed

lemma sibling_ranks_by_key:
  assumes "i < length (transitions d)"
  shows "siblingCount (edges (getRadialLayoutElements d) ! i)
           = length (filter (\<lambda>t. edgeKey t = edgeKey (transitions d ! i)) (transitions d))"
    and "siblingIndex (edges (getRadialLayoutElements d) ! i)
           = length (filter (\<lambda>t. edgeKey t = edgeKey (transitions d ! i)) (take i (transitions d)))"
proof -
  let ?ts = "transitions d"
  have e: "edges (getRadialLayoutElements d) ! i = layoutEdge d (i, ?ts ! i)"
    using assms by (simp add: getRadialLayoutElements_def layoutedEdges_nth)
  have mem: "?ts ! i \<in> set ?ts" using assms by simp
  then have pos: "filter (\<lambda>t. edgeKey t = edgeKey (?ts ! i)) ?ts \<noteq> []"
    by (auto simp: filter_empty_conv)
  show "siblingCount (edges (getRadialLayoutElements d) ! i)
           = length (filter (\<lambda>t. edgeKey t = edgeKey (?ts ! i)) ?ts)"
    using mem pos by (simp add: e layoutEdge_def Let_def edgeGroups_count)
  show "siblingIndex (edges (getRadialLayoutElements d) ! i)
           = length (filter (\<lambda>t. edgeKey t = edgeKey (?ts ! i)) (take i ?ts))"
    using assms by (simp add: e layoutEdge_def Let_def edgeIndices_rank)
qed

lemma offset_single: "cnt \<le> 1 \<Longrightarrow> getMultiEdgeCurvatureOffset index cnt spacing = 0"
  by (simp add: getMultiEdgeCurvatureOffset_def)

lemma edgeKey_inj:
  assumes "CHR ''-'' \<notin> set (source t)" and "CHR ''-'' \<notin> set (source u)"
    and "edgeKey t = edgeKey u"
  shows "source t = source u \<and> target t = target u"
proof -
  have tw: "takeWhile (\<lambda>c. c \<noteq> CHR ''-'') (s @ ''->'' @ r) = s" if "CHR ''-'' \<notin> set s"
    for s r :: string
    using that by (induction s) auto
  from assms(3) have e: "source t @ ''->'' @ target t = source u @ ''->'' @ target u"
    by (simp add: edgeKey_def)
  then have "takeWhile (\<lambda>c. c \<noteq> CHR ''-'') (source t @ ''->'' @ target t)
      = takeWhile (\<lambda>c. c \<noteq> CHR ''-'') (source u @ ''->'' @ target u)"
    by simp
  then have "source t = source u" using tw assms(1,2) by simp
  with e show ?thesis by simp
qed

section \<open>Geometry: lemmas\<close>

lemma normalize_zero: "normalize 0 0 = (0, 0)"
  by (simp add: normalize_def)

lemma sqrt_sum_squares_zero: "sqrt (x * x + y * y) = 0 \<longleftrightarrow> x = 0 \<and> y = 0" for x y :: real
proof -
  have "x * x + y * y = 0 \<longleftrightarrow> x = 0 \<and> y = 0"
    by (simp add: sum_squares_eq_zero_iff)
  then show ?thesis by simp
qed

lemma unit_scaled:
  fixes x y l :: real
  assumes "l \<noteq> 0" and "l\<^sup>2 = x * x + y * y"
  shows "(x / l)\<^sup>2 + (y / l)\<^sup>2 = 1"
proof -
  have e: "x\<^sup>2 + y\<^sup>2 = l\<^sup>2" using assms(2) by (simp add: power2_eq_square)
  have "(x / l)\<^sup>2 + (y / l)\<^sup>2 = (x\<^sup>2 + y\<^sup>2) / l\<^sup>2"
    by (simp add: power_divide add_divide_distrib)
  also have "\<dots> = l\<^sup>2 / l\<^sup>2" by (simp only: e)
  also have "\<dots> = 1" using assms(1) by simp
  finally show ?thesis .
qed

lemma normalize_unit:
  assumes "x \<noteq> 0 \<or> y \<noteq> 0"
  shows "normalize x y = (x / sqrt (x * x + y * y), y / sqrt (x * x + y * y))"
    and "(fst (normalize x y))\<^sup>2 + (snd (normalize x y))\<^sup>2 = 1"
proof -
  let ?len = "sqrt (x * x + y * y)"
  have nz: "?len \<noteq> 0" using assms sqrt_sum_squares_zero [of x y] by blast
  show n: "normalize x y = (x / ?len, y / ?len)"
    using nz by (simp add: normalize_def Let_def)
  have pos: "0 \<le> x * x + y * y" by simp
  have sq: "?len\<^sup>2 = x * x + y * y" using pos by (rule real_sqrt_pow2)
  have "(x / ?len)\<^sup>2 + (y / ?len)\<^sup>2 = 1"
    using nz sq by (rule unit_scaled)
  then show "(fst (normalize x y))\<^sup>2 + (snd (normalize x y))\<^sup>2 = 1"
    by (simp only: n fst_conv snd_conv)
qed

lemma rotate_unit_gen:
  fixes nx ny c s :: real
  assumes "nx\<^sup>2 + ny\<^sup>2 = 1" and "c\<^sup>2 + s\<^sup>2 = 1"
  shows "(nx * c + ny * s)\<^sup>2 + (- nx * s + ny * c)\<^sup>2 = 1"
    and "(nx * c - ny * s)\<^sup>2 + (nx * s + ny * c)\<^sup>2 = 1"
proof -
  have "(nx * c + ny * s)\<^sup>2 + (- nx * s + ny * c)\<^sup>2 = (nx\<^sup>2 + ny\<^sup>2) * (c\<^sup>2 + s\<^sup>2)"
    by (simp add: power2_eq_square algebra_simps)
  then show "(nx * c + ny * s)\<^sup>2 + (- nx * s + ny * c)\<^sup>2 = 1"
    using assms by simp
  have "(nx * c - ny * s)\<^sup>2 + (nx * s + ny * c)\<^sup>2 = (nx\<^sup>2 + ny\<^sup>2) * (c\<^sup>2 + s\<^sup>2)"
    by (simp add: power2_eq_square algebra_simps)
  then show "(nx * c - ny * s)\<^sup>2 + (nx * s + ny * c)\<^sup>2 = 1"
    using assms by simp
qed

lemma rotate_unit:
  fixes nx ny a :: real
  assumes "nx\<^sup>2 + ny\<^sup>2 = 1"
  shows "(nx * cos a + ny * sin a)\<^sup>2 + (- nx * sin a + ny * cos a)\<^sup>2 = 1"
    and "(nx * cos a - ny * sin a)\<^sup>2 + (nx * sin a + ny * cos a)\<^sup>2 = 1"
  using rotate_unit_gen [OF assms, of "cos a" "sin a"] by simp_all

lemma distance_offset:
  fixes u v r :: real
  assumes "u\<^sup>2 + v\<^sup>2 = 1" and "0 \<le> r"
  shows "distance (x + u * r, y + v * r) (x, y) = r"
proof -
  have "(u * r)\<^sup>2 + (v * r)\<^sup>2 = (u\<^sup>2 + v\<^sup>2) * r\<^sup>2"
    by (simp add: power_mult_distrib distrib_right)
  then show ?thesis using assms by (simp add: distance_def)
qed

lemma selfLoop_path:
  "path (selfLoopGeometry x y k) =
     (let (nx, ny) = normalize x y;
          sx = nx * cos OFFSET_ANGLE + ny * sin OFFSET_ANGLE;
          sy = - nx * sin OFFSET_ANGLE + ny * cos OFFSET_ANGLE;
          ex = nx * cos OFFSET_ANGLE - ny * sin OFFSET_ANGLE;
          ey = nx * sin OFFSET_ANGLE + ny * cos OFFSET_ANGLE;
          L = 70 + real k * 15
      in Cubic (x + sx * NODE_RADIUS, y + sy * NODE_RADIUS)
               (x + sx * NODE_RADIUS + sx * L, y + sy * NODE_RADIUS + sy * L)
               (x + ex * NODE_RADIUS + ex * L, y + ey * NODE_RADIUS + ey * L)
               (x + ex * NODE_RADIUS, y + ey * NODE_RADIUS))"
  by (simp add: selfLoopGeometry_def Let_def split: prod.splits)

lemma cos_offset_pos: "0 < cos OFFSET_ANGLE"
proof -
  have "0 < OFFSET_ANGLE" by (simp add: OFFSET_ANGLE_def)
  moreover have "OFFSET_ANGLE < pi / 2" using pi_ge_two by (simp add: OFFSET_ANGLE_def)
  ultimately show ?thesis by (rule cos_gt_zero)
qed

lemma sqrt_9216: "sqrt 9216 = 96"
  by (rule real_sqrt_unique) simp_all

section \<open>Scenario A, evaluated\<close>

lemma hubId_scenarioA: "hubId scenarioA = Some ''S0''"
  by (simp add: scenarioA_def hub_eval)

lemma rimNodes_scenarioA: "rimNodes scenarioA = [mkState ''S1'' ''RUN'', mkState ''S2'' ''DONE'']"
  by (simp add: rimNodes_def hubId_scenarioA) (simp add: scenarioA_def)

lemma rimOrder_scenarioA: "rimOrder scenarioA = [mkState ''S1'' ''RUN'', mkState ''S2'' ''DONE'']"
  by (simp add: rimOrder_def rimNodes_scenarioA startId_def startCandidates_def hubId_scenarioA
      falsy_def greedyChain.simps chainBody_def addCurrent_def neighbors_def)
     (simp add: scenarioA_def greedyChain.simps chainBody_def addCurrent_def neighbors_def)

section \<open>Hub selection\<close>

text \<open>
  Claim C1. The hub is the first state whose label matches the reset vocabulary, and
  otherwise the first state of maximal degree (\<open>hubId_by_label\<close>,
  \<open>hubId_by_degree\<close>), with one exception: the test \<^verbatim>\<open>if (!hubId)\<close> also holds for
  the empty identifier of a state that was found by its label. For the state S1 with
  label RUN followed by the state with the empty identifier and label IDLE, without
  transitions, the first state whose label matches is the second one, and the hub is S1.
\<close>

theorem hub_label_with_empty_id:
  "find isHubLabel (states (mkData [mkState ''S1'' ''RUN'', mkState '''' ''IDLE''] []))
     = Some (mkState '''' ''IDLE'')
   \<and> hubId (mkData [mkState ''S1'' ''RUN'', mkState '''' ''IDLE''] []) = Some ''S1''"
  by (simp add: hub_eval)

section \<open>Rim ordering\<close>

text \<open>
  The rim ordering is a permutation of the list \<open>rimNodes\<close>, the states that pass the
  filter \<^verbatim>\<open>s.id !== hubId\<close>, when these have pairwise distinct identifiers and every
  transition that leaves one of them has its target in the state list.
\<close>

lemma mset_rimOrder_rimNodes:
  assumes dist: "distinct (map state_id (rimNodes d))"
    and wt: "\<forall>t \<in> set (transitions d).
        source t \<in> state_id ` set (rimNodes d) \<longrightarrow> target t \<in> state_id ` set (states d)"
  shows "mset (rimOrder d) = mset (rimNodes d)"
proof (cases "rimNodes d")
  case Nil
  then show ?thesis by (simp add: rimOrder_def)
next
  case (Cons first rest)
  let ?rim = "rimNodes d"
  let ?c0 = "\<lparr>visited = [], currentId = startId d first, sortedRimNodes = []\<rparr>"
  let ?r = "greedyChain (hubId d) (transitions d) ?rim ?c0"
  have ro: "rimOrder d = sortedRimNodes ?r" using Cons by (simp add: rimOrder_def)
  have "wellTargeted (hubId d) (transitions d) ?rim"
    unfolding wellTargeted_def
  proof (intro ballI impI)
    fix t assume t: "t \<in> set (transitions d)"
      and "source t \<in> state_id ` set ?rim \<and> Some (target t) \<noteq> hubId d"
    then have "target t \<in> state_id ` set (states d)" and "Some (target t) \<noteq> hubId d"
      using wt by auto
    then show "target t \<in> state_id ` set ?rim" by (auto simp: rimNodes_def)
  qed
  moreover have "closedInv ?rim ?c0"
    using startId_rim [OF Cons] by (simp add: closedInv_def)
  moreover have "chainInv ?rim ?c0" by (simp add: chainInv_def)
  ultimately have vis: "set (visited ?r) = state_id ` set ?rim"
    by (rule greedyChain_complete)
  have inv: "chainInv ?rim ?r"
    using \<open>chainInv ?rim ?c0\<close> by (rule chainInv_greedyChain)
  then have ids: "map state_id (sortedRimNodes ?r) = visited ?r"
    using vis by (simp add: chainInv_def)
  have sub: "set (sortedRimNodes ?r) \<subseteq> set ?rim" using inv by (simp add: chainInv_def)
  have d1: "distinct (sortedRimNodes ?r)"
    using inv ids by (metis chainInv_def distinct_map)
  have d2: "distinct ?rim" using dist by (simp add: distinct_map)
  have inj: "inj_on state_id (set ?rim)" using dist by (simp add: distinct_map)
  have "set ?rim \<subseteq> set (sortedRimNodes ?r)"
  proof
    fix n assume n: "n \<in> set ?rim"
    then have "state_id n \<in> set (map state_id (sortedRimNodes ?r))"
      using vis ids by auto
    then obtain m where m: "m \<in> set (sortedRimNodes ?r)" "state_id m = state_id n" by auto
    with sub have "m \<in> set ?rim" by auto
    with inj n m(2) have "m = n" by (auto dest: inj_onD)
    with m(1) show "n \<in> set (sortedRimNodes ?r)" by simp
  qed
  with sub have "set (sortedRimNodes ?r) = set ?rim" by auto
  with d1 d2 have "mset (sortedRimNodes ?r) = mset ?rim"
    by (simp add: set_eq_iff_mset_eq_distinct)
  with ro show ?thesis by simp
qed

lemma filter_distinct_key:
  "distinct (map f xs) \<Longrightarrow> x \<in> set xs \<Longrightarrow> filter (\<lambda>y. f y = f x) xs = [x]"
proof (induction xs)
  case Nil
  then show ?case by simp
next
  case (Cons a xs)
  show ?case
  proof (cases "a = x")
    case True
    have "f x \<notin> f ` set xs" using Cons.prems(1) True by simp
    then have "\<forall>y \<in> set xs. f y \<noteq> f x" by (metis imageI)
    then have "filter (\<lambda>y. f y = f x) xs = []"
      by (simp add: filter_empty_conv)
    with True show ?thesis by simp
  next
    case False
    with Cons.prems have x: "x \<in> set xs" by simp
    then have "f a \<noteq> f x" using Cons.prems(1) by (metis distinct.simps(2) imageI list.simps(9) set_map)
    moreover have "filter (\<lambda>y. f y = f x) xs = [x]"
      using Cons.prems(1) x by (intro Cons.IH) simp_all
    ultimately show ?thesis by simp
  qed
qed

text \<open>
  Claim C2, amended. When the states have pairwise distinct identifiers and every
  transition whose source is a state other than the hub has its target in the state
  list, the rim ordering is a permutation of the states without the hub state, the state
  that \<^verbatim>\<open>states.find(s => s.id === hubId)\<close> returns: every other state occurs in it
  exactly once, and the hub state does not occur. Without states the rim ordering is
  empty.
\<close>

theorem rim_order_permutation:
  assumes dist: "distinct (map state_id (states d))"
    and wt: "\<forall>t \<in> set (transitions d).
        source t \<in> state_id ` set (states d) \<and> Some (source t) \<noteq> hubId d
        \<longrightarrow> target t \<in> state_id ` set (states d)"
  shows "(case find (\<lambda>s. Some (state_id s) = hubId d) (states d) of
            None \<Rightarrow> states d = [] \<and> rimOrder d = []
          | Some hubNodeData \<Rightarrow>
              mset (rimOrder d) = mset (states d) - {#hubNodeData#} \<and>
              distinct (rimOrder d) \<and>
              set (rimOrder d) = set (states d) - {hubNodeData})"
proof -
  have d1: "distinct (map state_id (rimNodes d))"
    using dist by (simp add: rimNodes_def distinct_map_filter)
  have "\<forall>t \<in> set (transitions d).
        source t \<in> state_id ` set (rimNodes d) \<longrightarrow> target t \<in> state_id ` set (states d)"
    using wt by (auto simp: rimNodes_def)
  with d1 have perm: "mset (rimOrder d) = mset (rimNodes d)"
    by (rule mset_rimOrder_rimNodes)
  show ?thesis
  proof (cases "states d = []")
    case True
    then have "rimOrder d = []" by (simp add: rimOrder_def rimNodes_def)
    with True show ?thesis by simp
  next
    case False
    from hubId_in_states [OF False] obtain s where s: "s \<in> set (states d)"
      and h: "hubId d = Some (state_id s)" by blast
    have f: "filter (\<lambda>y. state_id y = state_id s) (states d) = [s]"
      using dist s by (rule filter_distinct_key)
    have fnd: "find (\<lambda>x. Some (state_id x) = hubId d) (states d) = Some s"
      using f by (simp add: h find_filter_hd)
    have "mset (states d) =
        mset (filter (\<lambda>y. state_id y = state_id s) (states d)) +
        mset (filter (\<lambda>y. state_id y \<noteq> state_id s) (states d))"
      by (simp only: mset_filter multiset_partition [symmetric])
    also have "filter (\<lambda>y. state_id y \<noteq> state_id s) (states d) = rimNodes d"
      by (simp add: rimNodes_def h)
    finally have "mset (states d) = {#s#} + mset (rimOrder d)"
      by (simp add: f perm)
    then have m: "mset (rimOrder d) = mset (states d) - {#s#}" by simp
    have ds: "distinct (states d)" using dist by (simp add: distinct_map)
    have dr: "distinct (rimOrder d)" using distinct_rimOrder [of d] by (simp add: distinct_map)
    have "set (rimOrder d) = set (rimNodes d)" using perm by (metis set_mset_mset)
    also have "\<dots> = set (states d) - {s}"
    proof -
      have "inj_on state_id (set (states d))" using dist by (simp add: distinct_map)
      then have "state_id y = state_id s \<longleftrightarrow> y = s" if "y \<in> set (states d)" for y
        using that s by (auto dest: inj_onD)
      then show ?thesis by (auto simp: rimNodes_def h)
    qed
    finally have st: "set (rimOrder d) = set (states d) - {s}" .
    from m dr st show ?thesis by (simp add: fnd)
  qed
qed

theorem rim_order_permutation_witness:
  "distinct (map state_id (states scenarioA))
   \<and> target ` set (transitions scenarioA) \<subseteq> state_id ` set (states scenarioA)
   \<and> find (\<lambda>s. Some (state_id s) = hubId scenarioA) (states scenarioA)
       = Some (mkState ''S0'' ''idle'')
   \<and> mset (rimOrder scenarioA) = mset (states scenarioA) - {#mkState ''S0'' ''idle''#}
   \<and> rimOrder scenarioA = [mkState ''S1'' ''RUN'', mkState ''S2'' ''DONE'']"
proof -
  have h1: "distinct (map state_id (states scenarioA))"
    by (simp add: scenarioA_def)
  have h2: "\<forall>t \<in> set (transitions scenarioA).
        source t \<in> state_id ` set (states scenarioA) \<and> Some (source t) \<noteq> hubId scenarioA
        \<longrightarrow> target t \<in> state_id ` set (states scenarioA)"
    by (simp add: scenarioA_def)
  have h3: "target ` set (transitions scenarioA) \<subseteq> state_id ` set (states scenarioA)"
    by (simp add: scenarioA_def)
  have f: "find (\<lambda>s. Some (state_id s) = hubId scenarioA) (states scenarioA)
       = Some (mkState ''S0'' ''idle'')"
    by (simp add: hubId_scenarioA) (simp add: scenarioA_def)
  from rim_order_permutation [OF h1 h2]
  have "mset (rimOrder scenarioA) = mset (states scenarioA) - {#mkState ''S0'' ''idle''#}"
    by (simp add: f)
  with h1 h3 f rimOrder_scenarioA show ?thesis by blast
qed

text \<open>
  The claim as stated, for all inputs, fails in three ways. A transition from the state
  S1 to the identifier S9, which names no state, makes the loop count S9 as visited and
  stop before it reaches the state S2. Two states with the same identifier S1 are
  visited as one, and the second never enters the ordering. A state X that shares the
  identifier S0 of the hub state IDLE is removed together with it by the filter
  \<^verbatim>\<open>s.id !== hubId\<close>: it is neither the hub node nor on the rim.
\<close>

theorem rim_order_drops_state:
  "rimNodes (mkData [mkState ''S0'' ''IDLE'', mkState ''S1'' ''A'', mkState ''S2'' ''B'']
             [mkTransition ''S0'' ''S1'', mkTransition ''S1'' ''S9''])
     = [mkState ''S1'' ''A'', mkState ''S2'' ''B'']
   \<and> rimOrder (mkData [mkState ''S0'' ''IDLE'', mkState ''S1'' ''A'', mkState ''S2'' ''B'']
             [mkTransition ''S0'' ''S1'', mkTransition ''S1'' ''S9''])
     = [mkState ''S1'' ''A'']
   \<and> rimNodes (mkData [mkState ''S0'' ''IDLE'', mkState ''S1'' ''A'', mkState ''S1'' ''B''] [])
     = [mkState ''S1'' ''A'', mkState ''S1'' ''B'']
   \<and> rimOrder (mkData [mkState ''S0'' ''IDLE'', mkState ''S1'' ''A'', mkState ''S1'' ''B''] [])
     = [mkState ''S1'' ''A'']
   \<and> hubId (mkData [mkState ''S0'' ''IDLE'', mkState ''S0'' ''X'', mkState ''S1'' ''Y''] [])
     = Some ''S0''
   \<and> rimOrder (mkData [mkState ''S0'' ''IDLE'', mkState ''S0'' ''X'', mkState ''S1'' ''Y''] [])
     = [mkState ''S1'' ''Y'']
   \<and> map node_label (nodes (getRadialLayoutElements
        (mkData [mkState ''S0'' ''IDLE'', mkState ''S0'' ''X'', mkState ''S1'' ''Y''] [])))
     = [''IDLE'', ''Y'']"
  by (simp add: hub_eval rim_eval getRadialLayoutElements_def layoutedNodes_def hubNode_def
      rimNode_def enumerate_eq_zip)

text \<open>
  Claim C10. The loop of the rim ordering ends on every input, whatever the transitions
  refer to. An iteration that starts with a current identifier outside \<^verbatim>\<open>visited\<close>
  appends that identifier to \<^verbatim>\<open>visited\<close>, and if it does not leave the loop, its new
  current identifier is again outside \<^verbatim>\<open>visited\<close>. Started with an empty
  \<^verbatim>\<open>visited\<close>, the loop therefore ends within as many iterations as there are rim
  nodes, with the result of \<open>greedyChain\<close>, and with at most that many visited
  identifiers.
\<close>

theorem greedy_chain_terminates:
  "(currentId c \<notin> set (visited c) \<and> length (visited c) < length rim \<longrightarrow>
      (case chainBody h ts rim c of
         Break c' \<Rightarrow> visited c' = visited c @ [currentId c]
       | Continue c' \<Rightarrow>
           visited c' = visited c @ [currentId c] \<and> currentId c' \<notin> set (visited c')))
   \<and> chainRun (length rim) h ts rim \<lparr>visited = [], currentId = s, sortedRimNodes = []\<rparr>
       = Some (greedyChain h ts rim \<lparr>visited = [], currentId = s, sortedRimNodes = []\<rparr>)
   \<and> length (visited (greedyChain h ts rim \<lparr>visited = [], currentId = s, sortedRimNodes = []\<rparr>))
       \<le> length rim"
proof (intro conjI impI)
  assume a: "currentId c \<notin> set (visited c) \<and> length (visited c) < length rim"
  show "case chainBody h ts rim c of
         Break c' \<Rightarrow> visited c' = visited c @ [currentId c]
       | Continue c' \<Rightarrow>
           visited c' = visited c @ [currentId c] \<and> currentId c' \<notin> set (visited c')"
  proof (cases "chainBody h ts rim c")
    case (Break c')
    have "visited c' = visited c @ [currentId c]"
      using a Break by (intro chainBody_progress(1)) simp_all
    then show ?thesis by (simp only: Break step.case)
  next
    case (Continue c')
    have "visited c' = visited c @ [currentId c] \<and> currentId c' \<notin> set (visited c')"
      using a Continue by (intro chainBody_progress(2)) simp_all
    then have "visited c' = visited c @ [currentId c]" and "currentId c' \<notin> set (visited c')"
      by blast+
    then show ?thesis by (simp add: Continue)
  qed
next
  show "chainRun (length rim) h ts rim \<lparr>visited = [], currentId = s, sortedRimNodes = []\<rparr>
       = Some (greedyChain h ts rim \<lparr>visited = [], currentId = s, sortedRimNodes = []\<rparr>)"
    by (rule chainRun_enough) simp_all
next
  show "length (visited (greedyChain h ts rim \<lparr>visited = [], currentId = s, sortedRimNodes = []\<rparr>))
       \<le> length rim"
    by (rule greedyChain_length) simp
qed

text \<open>
  An instance with a transition to the identifier S9 that names no state: the first
  iteration visits S1 and continues with S9.
\<close>

theorem greedy_chain_terminates_witness:
  "currentId \<lparr>visited = [], currentId = ''S1'', sortedRimNodes = []\<rparr>
     \<notin> set (visited \<lparr>visited = [], currentId = ''S1'', sortedRimNodes = []\<rparr>)
   \<and> length (visited \<lparr>visited = [], currentId = ''S1'', sortedRimNodes = []\<rparr>)
       < length [mkState ''S1'' ''A'', mkState ''S2'' ''B'']
   \<and> chainBody (Some ''S0'') [mkTransition ''S0'' ''S1'', mkTransition ''S1'' ''S9'']
       [mkState ''S1'' ''A'', mkState ''S2'' ''B'']
       \<lparr>visited = [], currentId = ''S1'', sortedRimNodes = []\<rparr>
     = Continue \<lparr>visited = [''S1''], currentId = ''S9'', sortedRimNodes = [mkState ''S1'' ''A'']\<rparr>
   \<and> (case chainBody (Some ''S0'') [mkTransition ''S0'' ''S1'', mkTransition ''S1'' ''S9'']
          [mkState ''S1'' ''A'', mkState ''S2'' ''B'']
          \<lparr>visited = [], currentId = ''S1'', sortedRimNodes = []\<rparr> of
        Break c' \<Rightarrow> visited c' = [] @ [''S1'']
      | Continue c' \<Rightarrow> visited c' = [] @ [''S1''] \<and> currentId c' \<notin> set (visited c'))
   \<and> chainRun (length [mkState ''S1'' ''A'', mkState ''S2'' ''B'']) (Some ''S0'')
       [mkTransition ''S0'' ''S1'', mkTransition ''S1'' ''S9'']
       [mkState ''S1'' ''A'', mkState ''S2'' ''B'']
       \<lparr>visited = [], currentId = ''S1'', sortedRimNodes = []\<rparr>
     = Some (greedyChain (Some ''S0'') [mkTransition ''S0'' ''S1'', mkTransition ''S1'' ''S9'']
       [mkState ''S1'' ''A'', mkState ''S2'' ''B'']
       \<lparr>visited = [], currentId = ''S1'', sortedRimNodes = []\<rparr>)"
proof -
  let ?c = "\<lparr>visited = [], currentId = ''S1'', sortedRimNodes = []\<rparr>"
  let ?rim = "[mkState ''S1'' ''A'', mkState ''S2'' ''B'']"
  let ?ts = "[mkTransition ''S0'' ''S1'', mkTransition ''S1'' ''S9'']"
  have p1: "currentId ?c \<notin> set (visited ?c)" by simp
  have p2: "length (visited ?c) < length ?rim" by simp
  have b: "chainBody (Some ''S0'') ?ts ?rim ?c
     = Continue \<lparr>visited = [''S1''], currentId = ''S9'', sortedRimNodes = [mkState ''S1'' ''A'']\<rparr>"
    by (simp add: chainBody_def addCurrent_def neighbors_def)
  note t = greedy_chain_terminates [of ?c ?rim "Some ''S0''" ?ts "''S1''"]
  have r: "chainRun (length ?rim) (Some ''S0'') ?ts ?rim ?c
     = Some (greedyChain (Some ''S0'') ?ts ?rim ?c)"
    using t by blast
  have "case chainBody (Some ''S0'') ?ts ?rim ?c of
        Break c' \<Rightarrow> visited c' = visited ?c @ [currentId ?c]
      | Continue c' \<Rightarrow>
          visited c' = visited ?c @ [currentId ?c] \<and> currentId c' \<notin> set (visited c')"
    using t p1 p2 by blast
  then have "case chainBody (Some ''S0'') ?ts ?rim ?c of
        Break c' \<Rightarrow> visited c' = [] @ [''S1'']
      | Continue c' \<Rightarrow> visited c' = [] @ [''S1''] \<and> currentId c' \<notin> set (visited c')"
    by (simp only: chain.simps)
  with p1 p2 b r show ?thesis by blast
qed

section \<open>Radial placement\<close>

text \<open>
  Claim C3. When there is a state, the first node of the placed graph is the hub node, at
  position (0, 0). The rim node of ring index \<open>i\<close> among \<open>n\<close> rim nodes follows it
  at index \<open>i + 1\<close>; its angle is \<open>2\<pi>i/n - \<pi>/2\<close> and its position is
  \<open>(R cos angle, R sin angle)\<close> with \<open>R = 380\<close>, so that it lies at distance \<open>R\<close>
  from the origin. The angle of the next rim node exceeds it by \<open>2\<pi>/n\<close>; from the last
  rim node to the first, one full turn later, the gap is \<open>2\<pi>/n\<close> as well.
\<close>

theorem radial_placement:
  "(states d \<noteq> [] \<longrightarrow>
      Some (node_id (nodes (getRadialLayoutElements d) ! 0)) = hubId d \<and>
      position_x (nodes (getRadialLayoutElements d) ! 0) = 0 \<and>
      position_y (nodes (getRadialLayoutElements d) ! 0) = 0)
   \<and> (i < length (rimOrder d) \<longrightarrow>
      (let n = length (rimOrder d);
           angle = 2 * pi * real i / real n - pi / 2;
           nd = nodes (getRadialLayoutElements d) ! (Suc i)
       in node_id nd = state_id (rimOrder d ! i) \<and>
          position_x nd = RADIUS * cos angle \<and>
          position_y nd = RADIUS * sin angle \<and>
          RADIUS = 380 \<and>
          sqrt ((position_x nd)\<^sup>2 + (position_y nd)\<^sup>2) = RADIUS \<and>
          finalAngle i n = angle \<and>
          (Suc i < n \<longrightarrow> finalAngle (Suc i) n - finalAngle i n = 2 * pi / real n) \<and>
          (Suc i = n \<longrightarrow> finalAngle 0 n + 2 * pi - finalAngle i n = 2 * pi / real n)))"
proof (intro conjI impI)
  assume "states d \<noteq> []"
  from hubNode_present [OF this] obtain h where
    h: "hubNode d = [h]" "Some (node_id h) = hubId d" "position_x h = 0" "position_y h = 0"
    by blast
  then show "Some (node_id (nodes (getRadialLayoutElements d) ! 0)) = hubId d"
    and "position_x (nodes (getRadialLayoutElements d) ! 0) = 0"
    and "position_y (nodes (getRadialLayoutElements d) ! 0) = 0"
    by (simp_all add: getRadialLayoutElements_def layoutedNodes_def)
next
  assume i: "i < length (rimOrder d)"
  let ?n = "length (rimOrder d)"
  let ?angle = "2 * pi * real i / real ?n - pi / 2"
  let ?nd = "nodes (getRadialLayoutElements d) ! (Suc i)"
  from i have "rimOrder d \<noteq> []" by auto
  then have "states d \<noteq> []" by (rule rimOrder_nonempty_states)
  from hubNode_present [OF this] obtain h where h: "hubNode d = [h]" by blast
  have nd: "?nd = rimNode ?n (i, rimOrder d ! i)"
    using i h by (simp add: getRadialLayoutElements_def layoutedNodes_def nth_enumerate_eq)
  have fa: "finalAngle i ?n = ?angle" by (simp add: finalAngle_def)
  have x: "position_x ?nd = RADIUS * cos ?angle" and y: "position_y ?nd = RADIUS * sin ?angle"
    and id: "node_id ?nd = state_id (rimOrder d ! i)"
    by (simp_all add: nd rimNode_def fa)
  have "0 \<le> RADIUS" by (simp add: RADIUS_def)
  then have "sqrt ((RADIUS * cos ?angle)\<^sup>2 + (RADIUS * sin ?angle)\<^sup>2) = RADIUS"
    by (rule circle_point_distance)
  then have dist: "sqrt ((position_x ?nd)\<^sup>2 + (position_y ?nd)\<^sup>2) = RADIUS"
    by (simp only: x y)
  have nz: "real ?n \<noteq> 0" using i by auto
  have nxt: "finalAngle (Suc i) ?n - finalAngle i ?n = 2 * pi / real ?n"
    using nz by (simp add: finalAngle_def field_simps)
  have wrap: "finalAngle 0 ?n + 2 * pi - finalAngle i ?n = 2 * pi / real ?n" if "Suc i = ?n"
  proof -
    from that have "real i = real ?n - 1" by linarith
    then show ?thesis using wrap_gap [OF nz] by (simp add: finalAngle_def)
  qed
  show "let n = length (rimOrder d);
           angle = 2 * pi * real i / real n - pi / 2;
           nd = nodes (getRadialLayoutElements d) ! (Suc i)
       in node_id nd = state_id (rimOrder d ! i) \<and>
          position_x nd = RADIUS * cos angle \<and>
          position_y nd = RADIUS * sin angle \<and>
          RADIUS = 380 \<and>
          sqrt ((position_x nd)\<^sup>2 + (position_y nd)\<^sup>2) = RADIUS \<and>
          finalAngle i n = angle \<and>
          (Suc i < n \<longrightarrow> finalAngle (Suc i) n - finalAngle i n = 2 * pi / real n) \<and>
          (Suc i = n \<longrightarrow> finalAngle 0 n + 2 * pi - finalAngle i n = 2 * pi / real n)"
    unfolding Let_def using id x y dist fa nxt wrap by (simp add: RADIUS_def)
qed

text \<open>
  Scenario A: the hub S0 at the origin, RUN at the top of the circle (angle \<open>-\<pi>/2\<close>),
  DONE opposite to it, half a turn further in both directions.
\<close>

theorem radial_placement_witness:
  "states scenarioA \<noteq> [] \<and> 0 < length (rimOrder scenarioA) \<and> 1 < length (rimOrder scenarioA)
   \<and> Suc 0 < length (rimOrder scenarioA) \<and> Suc 1 = length (rimOrder scenarioA)
   \<and> node_id (nodes (getRadialLayoutElements scenarioA) ! 0) = ''S0''
   \<and> position_x (nodes (getRadialLayoutElements scenarioA) ! 0) = 0
   \<and> position_y (nodes (getRadialLayoutElements scenarioA) ! 0) = 0
   \<and> node_id (nodes (getRadialLayoutElements scenarioA) ! 1) = ''S1''
   \<and> position_x (nodes (getRadialLayoutElements scenarioA) ! 1) = 0
   \<and> position_y (nodes (getRadialLayoutElements scenarioA) ! 1) = - 380
   \<and> node_id (nodes (getRadialLayoutElements scenarioA) ! 2) = ''S2''
   \<and> finalAngle 1 2 - finalAngle 0 2 = pi
   \<and> finalAngle 0 2 + 2 * pi - finalAngle 1 2 = pi"
proof -
  have s: "states scenarioA \<noteq> []" by (simp add: scenarioA_def)
  have l: "length (rimOrder scenarioA) = 2" by (simp add: rimOrder_scenarioA)
  note w0 = radial_placement [of scenarioA 0]
  note w1 = radial_placement [of scenarioA 1]
  from w0 s have hub: "node_id (nodes (getRadialLayoutElements scenarioA) ! 0) = ''S0''"
    "position_x (nodes (getRadialLayoutElements scenarioA) ! 0) = 0"
    "position_y (nodes (getRadialLayoutElements scenarioA) ! 0) = 0"
    by (simp_all add: hubId_scenarioA)
  from w0 have n1: "node_id (nodes (getRadialLayoutElements scenarioA) ! 1) = ''S1''"
    "position_x (nodes (getRadialLayoutElements scenarioA) ! 1) = 0"
    "position_y (nodes (getRadialLayoutElements scenarioA) ! 1) = - 380"
    "finalAngle 1 2 - finalAngle 0 2 = pi"
    by (simp_all add: l Let_def rimOrder_scenarioA numeral_2_eq_2)
  from w1 have n2: "node_id (nodes (getRadialLayoutElements scenarioA) ! 2) = ''S2''"
    "finalAngle 0 2 + 2 * pi - finalAngle 1 2 = pi"
    by (simp_all add: l Let_def rimOrder_scenarioA numeral_2_eq_2)
  from s l hub n1 n2 show ?thesis by simp
qed

section \<open>Determinism\<close>

text \<open>
  Claim C4. The layout is a function of the state list and the transition list: two
  graph descriptions with the same states and the same transitions, in the same order,
  have the same hub, the same rim ordering and the same placed graph, that is, the same
  nodes with their coordinates and the same edges with their flags and sibling ranks.
\<close>

theorem layout_deterministic:
  assumes "states d1 = states d2" and "transitions d1 = transitions d2"
  shows "hubId d1 = hubId d2 \<and> rimOrder d1 = rimOrder d2
       \<and> getRadialLayoutElements d1 = getRadialLayoutElements d2"
proof -
  have h: "hubId d1 = hubId d2" using assms by (rule hubId_cong)
  have r: "rimOrder d1 = rimOrder d2" using assms by (rule rimOrder_cong)
  have n: "layoutedNodes d1 = layoutedNodes d2"
    using assms(1) h r by (simp add: layoutedNodes_def hubNode_def)
  have "layoutEdge d1 = layoutEdge d2"
    unfolding layoutEdge_def h r n assms(2) by (rule refl)
  then have "layoutedEdges d1 = layoutedEdges d2"
    using assms(2) by (simp add: layoutedEdges_def)
  with h r n show ?thesis by (simp add: getRadialLayoutElements_def)
qed

theorem layout_deterministic_witness:
  "states scenarioA = states (scenarioA\<lparr>moduleName := ''other''\<rparr>)
   \<and> transitions scenarioA = transitions (scenarioA\<lparr>moduleName := ''other''\<rparr>)
   \<and> hubId scenarioA = hubId (scenarioA\<lparr>moduleName := ''other''\<rparr>)
   \<and> rimOrder scenarioA = rimOrder (scenarioA\<lparr>moduleName := ''other''\<rparr>)
   \<and> getRadialLayoutElements scenarioA
       = getRadialLayoutElements (scenarioA\<lparr>moduleName := ''other''\<rparr>)"
proof -
  have h1: "states scenarioA = states (scenarioA\<lparr>moduleName := ''other''\<rparr>)" by simp
  have h2: "transitions scenarioA = transitions (scenarioA\<lparr>moduleName := ''other''\<rparr>)" by simp
  from layout_deterministic [OF h1 h2] h1 h2 show ?thesis by blast
qed

section \<open>Self-loops\<close>

text \<open>
  Claim C5, amended. The edge of a transition whose source is its target has
  \<^verbatim>\<open>isSelfLoop\<close> set. For a self-loop on a node whose centre is not the origin, the path
  starts and ends at distance \<^verbatim>\<open>NODE_RADIUS\<close> from the centre, and the two end points
  lie symmetrically about the direction from the origin, where the hub is placed, to the
  centre: their offsets from the centre add up to a positive multiple of that direction.
\<close>

theorem self_loop_on_rim:
  "(i < length (transitions d) \<and> source (transitions d ! i) = target (transitions d ! i)
      \<longrightarrow> isSelfLoop (edges (getRadialLayoutElements d) ! i))
   \<and> (data_isSelfLoop dat \<and> (x \<noteq> 0 \<or> y \<noteq> 0) \<longrightarrow>
        (\<exists>g. RadialEdge (Some x) (Some y) (Some tx) (Some ty) dat = Some (Inr g)
           \<and> distance (pathStart (path g)) (x, y) = NODE_RADIUS
           \<and> distance (pathEnd (path g)) (x, y) = NODE_RADIUS
           \<and> (fst (pathStart (path g)) - x) + (fst (pathEnd (path g)) - x)
               = 2 * NODE_RADIUS * cos OFFSET_ANGLE * fst (normalize x y)
           \<and> (snd (pathStart (path g)) - y) + (snd (pathEnd (path g)) - y)
               = 2 * NODE_RADIUS * cos OFFSET_ANGLE * snd (normalize x y)
           \<and> normalize x y = (x / sqrt (x * x + y * y), y / sqrt (x * x + y * y))
           \<and> 0 < 2 * NODE_RADIUS * cos OFFSET_ANGLE))"
proof (intro conjI impI)
  assume "i < length (transitions d) \<and> source (transitions d ! i) = target (transitions d ! i)"
  then show "isSelfLoop (edges (getRadialLayoutElements d) ! i)"
    by (simp add: getRadialLayoutElements_def layoutedEdges_nth layoutEdge_def Let_def)
next
  assume a: "data_isSelfLoop dat \<and> (x \<noteq> 0 \<or> y \<noteq> 0)"
  let ?g = "selfLoopGeometry x y (data_siblingIndex dat)"
  obtain nx ny where n: "normalize x y = (nx, ny)" by (cases "normalize x y")
  have unit: "nx\<^sup>2 + ny\<^sup>2 = 1" using normalize_unit(2) [of x y] a n by simp
  have dir: "normalize x y = (x / sqrt (x * x + y * y), y / sqrt (x * x + y * y))"
    using normalize_unit(1) [of x y] a by simp
  have r: "RadialEdge (Some x) (Some y) (Some tx) (Some ty) dat = Some (Inr ?g)"
    using a by (simp add: RadialEdge_def radialGeometry_def Let_def)
  have p: "path ?g =
      Cubic (x + (nx * cos OFFSET_ANGLE + ny * sin OFFSET_ANGLE) * NODE_RADIUS,
             y + (- nx * sin OFFSET_ANGLE + ny * cos OFFSET_ANGLE) * NODE_RADIUS)
            (x + (nx * cos OFFSET_ANGLE + ny * sin OFFSET_ANGLE) * NODE_RADIUS
               + (nx * cos OFFSET_ANGLE + ny * sin OFFSET_ANGLE) * (70 + real (data_siblingIndex dat) * 15),
             y + (- nx * sin OFFSET_ANGLE + ny * cos OFFSET_ANGLE) * NODE_RADIUS
               + (- nx * sin OFFSET_ANGLE + ny * cos OFFSET_ANGLE) * (70 + real (data_siblingIndex dat) * 15))
            (x + (nx * cos OFFSET_ANGLE - ny * sin OFFSET_ANGLE) * NODE_RADIUS
               + (nx * cos OFFSET_ANGLE - ny * sin OFFSET_ANGLE) * (70 + real (data_siblingIndex dat) * 15),
             y + (nx * sin OFFSET_ANGLE + ny * cos OFFSET_ANGLE) * NODE_RADIUS
               + (nx * sin OFFSET_ANGLE + ny * cos OFFSET_ANGLE) * (70 + real (data_siblingIndex dat) * 15))
            (x + (nx * cos OFFSET_ANGLE - ny * sin OFFSET_ANGLE) * NODE_RADIUS,
             y + (nx * sin OFFSET_ANGLE + ny * cos OFFSET_ANGLE) * NODE_RADIUS)"
    by (simp add: selfLoop_path n Let_def)
  have rad: "0 \<le> NODE_RADIUS" by (simp add: NODE_RADIUS_def)
  have s: "distance (pathStart (path ?g)) (x, y) = NODE_RADIUS"
    unfolding p pathStart.simps
    by (rule distance_offset [OF rotate_unit(1) [OF unit] rad])
  have e: "distance (pathEnd (path ?g)) (x, y) = NODE_RADIUS"
    unfolding p pathEnd.simps
    by (rule distance_offset [OF rotate_unit(2) [OF unit] rad])
  have mx: "(fst (pathStart (path ?g)) - x) + (fst (pathEnd (path ?g)) - x)
               = 2 * NODE_RADIUS * cos OFFSET_ANGLE * fst (normalize x y)"
    by (simp add: p n algebra_simps)
  have my: "(snd (pathStart (path ?g)) - y) + (snd (pathEnd (path ?g)) - y)
               = 2 * NODE_RADIUS * cos OFFSET_ANGLE * snd (normalize x y)"
    by (simp add: p n algebra_simps)
  have pos: "0 < 2 * NODE_RADIUS * cos OFFSET_ANGLE"
    using cos_offset_pos by (simp add: NODE_RADIUS_def)
  from r s e mx my dir pos show "\<exists>g. RadialEdge (Some x) (Some y) (Some tx) (Some ty) dat = Some (Inr g)
           \<and> distance (pathStart (path g)) (x, y) = NODE_RADIUS
           \<and> distance (pathEnd (path g)) (x, y) = NODE_RADIUS
           \<and> (fst (pathStart (path g)) - x) + (fst (pathEnd (path g)) - x)
               = 2 * NODE_RADIUS * cos OFFSET_ANGLE * fst (normalize x y)
           \<and> (snd (pathStart (path g)) - y) + (snd (pathEnd (path g)) - y)
               = 2 * NODE_RADIUS * cos OFFSET_ANGLE * snd (normalize x y)
           \<and> normalize x y = (x / sqrt (x * x + y * y), y / sqrt (x * x + y * y))
           \<and> 0 < 2 * NODE_RADIUS * cos OFFSET_ANGLE"
    by blast
qed

text \<open>
  A self-loop on the rim node at the top of the circle, centre (0, -380).
\<close>

theorem self_loop_on_rim_witness:
  "0 < length (transitions (mkData [mkState ''S0'' ''IDLE'', mkState ''S1'' ''RUN'']
                              [mkTransition ''S1'' ''S1'']))
   \<and> source (transitions (mkData [mkState ''S0'' ''IDLE'', mkState ''S1'' ''RUN'']
                              [mkTransition ''S1'' ''S1'']) ! 0)
       = target (transitions (mkData [mkState ''S0'' ''IDLE'', mkState ''S1'' ''RUN'']
                              [mkTransition ''S1'' ''S1'']) ! 0)
   \<and> isSelfLoop (edges (getRadialLayoutElements
         (mkData [mkState ''S0'' ''IDLE'', mkState ''S1'' ''RUN''] [mkTransition ''S1'' ''S1''])) ! 0)
   \<and> data_isSelfLoop \<lparr>data_isSelfLoop = True, data_siblingCount = 1, data_siblingIndex = 0,
                       data_isStraight = False\<rparr>
   \<and> (- 380::real) \<noteq> 0
   \<and> (\<exists>g. RadialEdge (Some 0) (Some (- 380)) (Some 0) (Some (- 380))
              \<lparr>data_isSelfLoop = True, data_siblingCount = 1, data_siblingIndex = 0,
                data_isStraight = False\<rparr> = Some (Inr g)
          \<and> distance (pathStart (path g)) (0, - 380) = NODE_RADIUS
          \<and> distance (pathEnd (path g)) (0, - 380) = NODE_RADIUS)"
proof -
  let ?d = "mkData [mkState ''S0'' ''IDLE'', mkState ''S1'' ''RUN''] [mkTransition ''S1'' ''S1'']"
  let ?dat = "\<lparr>data_isSelfLoop = True, data_siblingCount = 1, data_siblingIndex = 0,
                data_isStraight = False\<rparr>"
  note w = self_loop_on_rim [of 0 ?d ?dat 0 "- 380" 0 "- 380"]
  have h1: "0 < length (transitions ?d)" and h2: "source (transitions ?d ! 0) = target (transitions ?d ! 0)"
    and h3: "data_isSelfLoop ?dat" and h4: "(- 380::real) \<noteq> 0"
    by simp_all
  from w h1 h2 have c1: "isSelfLoop (edges (getRadialLayoutElements ?d) ! 0)" by blast
  from w h3 h4 have c2: "\<exists>g. RadialEdge (Some 0) (Some (- 380)) (Some 0) (Some (- 380)) ?dat = Some (Inr g)
          \<and> distance (pathStart (path g)) (0, - 380) = NODE_RADIUS
          \<and> distance (pathEnd (path g)) (0, - 380) = NODE_RADIUS"
    by blast
  from h1 h2 h3 h4 c1 c2 show ?thesis by blast
qed

text \<open>
  The claim as stated, for every self-loop, fails for a node centred at the origin:
  \<^verbatim>\<open>normalize\<close> returns the zero vector there, and the whole path collapses into
  the centre of the node, at distance 0 from it.
\<close>

theorem self_loop_at_origin:
  "RadialEdge (Some 0) (Some 0) (Some 0) (Some 0)
     \<lparr>data_isSelfLoop = True, data_siblingCount = 1, data_siblingIndex = 0, data_isStraight = False\<rparr>
     = Some (Inr (selfLoopGeometry 0 0 0))
   \<and> path (selfLoopGeometry 0 0 0) = Cubic (0, 0) (0, 0) (0, 0) (0, 0)
   \<and> distance (pathStart (path (selfLoopGeometry 0 0 0))) (0, 0) = 0
   \<and> distance (pathStart (path (selfLoopGeometry 0 0 0))) (0, 0) \<noteq> NODE_RADIUS
   \<and> distance (pathEnd (path (selfLoopGeometry 0 0 0))) (0, 0) \<noteq> NODE_RADIUS"
  by (simp add: RadialEdge_def radialGeometry_def selfLoop_path normalize_zero Let_def
      distance_def NODE_RADIUS_def)

section \<open>Division by zero in the curved branch\<close>

text \<open>
  Claim C6. \<^verbatim>\<open>normalize\<close> returns the zero vector for the zero vector and a unit vector
  otherwise (\<open>normalize_zero\<close>, \<open>normalize_unit\<close>). The curved branch of the general
  connection does not use it for its normal: it divides by the length of the segment
  between the two anchor points without a test. For two nodes at the same position, and
  for two nodes whose centres are 96 apart, the two anchor points coincide, the length
  is zero, and the division is a division by zero.
\<close>

theorem curved_branch_divides_by_zero:
  "getPointOnCircle 0 0 0 0 = (0, 0)
   \<and> radialGeometry 0 0 0 0
       \<lparr>data_isSelfLoop = False, data_siblingCount = 1, data_siblingIndex = 0,
         data_isStraight = False\<rparr>
     = Inl DivisionByZero
   \<and> getPointOnCircle 0 0 96 0 = (48, 0)
   \<and> getPointOnCircle 96 0 0 0 = (48, 0)
   \<and> radialGeometry 0 0 96 0
       \<lparr>data_isSelfLoop = False, data_siblingCount = 1, data_siblingIndex = 0,
         data_isStraight = False\<rparr>
     = Inl DivisionByZero"
  by (simp add: radialGeometry_def getPointOnCircle_def normalize_def curvedGeometry_def
      divide_checked_def Let_def sqrt_9216 NODE_RADIUS_def)

section \<open>Sibling edges\<close>

text \<open>
  Claim C7. The sibling count and the sibling index of an edge are taken per key
  \<^verbatim>\<open>source->target\<close> (\<open>sibling_ranks_by_key\<close>), and the offsets of a group add up
  to zero (\<open>offset_sum_zero\<close>, \<open>offset_three\<close>, \<open>offset_single\<close>). Equal keys mean
  equal pairs when no source contains a hyphen (\<open>edgeKey_inj\<close>), but not in general:
  the transition from a->b to c and the transition from a to b->c both have the key
  a->b->c. Each of them is alone in its group of transitions with the same source and
  target, and yet both edges get the sibling count 2, and the second the sibling
  index 1.
\<close>

theorem sibling_key_collision:
  "map (\<lambda>e. (edge_source e, edge_target e, siblingCount e, siblingIndex e))
     (edges (getRadialLayoutElements
        (mkData [mkState ''a'' ''IDLE'', mkState ''a->b'' ''P'', mkState ''c'' ''Q'',
                 mkState ''b->c'' ''R'']
                [mkTransition ''a->b'' ''c'', mkTransition ''a'' ''b->c''])))
   = [(''a->b'', ''c'', 2, 0), (''a'', ''b->c'', 2, 1)]"
  by (simp add: getRadialLayoutElements_def layoutedEdges_def layoutEdge_def groupEdges_def
      groupStep_def edgeKey_def radialKey_def toString.simps digitChar_def enumerate_eq_zip
      upt_rec Let_def)

section \<open>Degenerate input\<close>

text \<open>
  Claim C8. On degenerate input the layout does not fail. For an empty state list and
  no transitions the result has no nodes and no edges. For a single state and no
  transitions that state is the hub, the rim order is empty, and the result consists
  of the hub node at position (0, 0) and no edges.
\<close>

theorem degenerate_input:
  "getRadialLayoutElements
     \<lparr>moduleName = m, clockSignal = ck, resetSignal = rs, states = [], transitions = []\<rparr>
     = \<lparr>nodes = [], edges = []\<rparr>
   \<and> hubId \<lparr>moduleName = m, clockSignal = ck, resetSignal = rs, states = [s], transitions = []\<rparr>
       = Some (state_id s)
   \<and> rimOrder \<lparr>moduleName = m, clockSignal = ck, resetSignal = rs, states = [s], transitions = []\<rparr>
       = []
   \<and> getRadialLayoutElements
       \<lparr>moduleName = m, clockSignal = ck, resetSignal = rs, states = [s], transitions = []\<rparr> =
       \<lparr>nodes = [\<lparr>node_id = state_id s, node_type = ''circular'', node_label = state_label s,
                  node_description = state_description s,
                  node_isInitial = Some (state_type s = Some INITIAL),
                  position_x = 0, position_y = 0,
                  sourcePosition = Some PosRight, targetPosition = Some PosLeft\<rparr>],
        edges = []\<rparr>"
  by (simp add: getRadialLayoutElements_def layoutedNodes_def layoutedEdges_def hubNode_def
      rimOrder_def rimNodes_def hubId_single hubId_empty)

theorem degenerate_input_witness:
  "getRadialLayoutElements (mkData [] []) = \<lparr>nodes = [], edges = []\<rparr>
   \<and> hubId (mkData [\<lparr>state_id = ''S0'', state_label = ''RUN'', state_type = Some INITIAL,
                      state_description = None\<rparr>] []) = Some ''S0''
   \<and> rimOrder (mkData [\<lparr>state_id = ''S0'', state_label = ''RUN'', state_type = Some INITIAL,
                      state_description = None\<rparr>] []) = []
   \<and> getRadialLayoutElements
        (mkData [\<lparr>state_id = ''S0'', state_label = ''RUN'', state_type = Some INITIAL,
                   state_description = None\<rparr>] []) =
       \<lparr>nodes = [\<lparr>node_id = ''S0'', node_type = ''circular'', node_label = ''RUN'',
                  node_description = None, node_isInitial = Some True,
                  position_x = 0, position_y = 0,
                  sourcePosition = Some PosRight, targetPosition = Some PosLeft\<rparr>],
        edges = []\<rparr>"
  using degenerate_input [of "''fsm''" None None
      "\<lparr>state_id = ''S0'', state_label = ''RUN'', state_type = Some INITIAL,
        state_description = None\<rparr>"]
  by simp

section \<open>Edge classification\<close>

text \<open>
  Claim C9. For the edge of the transition at index \<open>i\<close>: \<^verbatim>\<open>isHubConnection\<close> holds
  exactly when the source or the target of the transition is the hub identifier;
  \<^verbatim>\<open>isSelfLoop\<close> holds exactly when source and target are equal; a self-loop and a hub
  connection never have \<^verbatim>\<open>isNeighbor\<close>; and for any other transition whose source sits
  at ring index \<open>a\<close> and whose target sits at ring index \<open>b\<close> of the rim ordering of
  length \<open>n\<close>, \<^verbatim>\<open>isNeighbor\<close> holds exactly when \<open>a\<close> and \<open>b\<close> differ by 1 or by
  \<open>n - 1\<close>.
\<close>

theorem edge_classification:
  assumes "i < length (transitions d)"
  shows
   "(let t = transitions d ! i;
         e = edges (getRadialLayoutElements d) ! i;
         n = length (rimOrder d)
     in (isHubConnection e \<longleftrightarrow> Some (source t) = hubId d \<or> Some (target t) = hubId d)
      \<and> (isSelfLoop e \<longleftrightarrow> source t = target t)
      \<and> (isSelfLoop e \<or> isHubConnection e \<longrightarrow> \<not> isNeighbor e)
      \<and> (\<forall>a b. \<not> isSelfLoop e \<and> \<not> isHubConnection e \<and> a < n \<and> b < n \<and>
             state_id (rimOrder d ! a) = source t \<and> state_id (rimOrder d ! b) = target t
             \<longrightarrow> (isNeighbor e \<longleftrightarrow> \<bar>int a - int b\<bar> = 1 \<or> \<bar>int a - int b\<bar> = int n - 1)))"
proof -
  let ?t = "transitions d ! i"
  let ?e = "edges (getRadialLayoutElements d) ! i"
  let ?n = "length (rimOrder d)"
  have e: "?e = layoutEdge d (i, ?t)"
    using assms by (simp add: getRadialLayoutElements_def layoutedEdges_nth)
  have hub: "isHubConnection ?e \<longleftrightarrow> Some (source ?t) = hubId d \<or> Some (target ?t) = hubId d"
    by (simp add: e layoutEdge_def Let_def)
  have self: "isSelfLoop ?e \<longleftrightarrow> source ?t = target ?t"
    by (simp add: e layoutEdge_def Let_def)
  have nb: "isNeighbor ?e =
      (if \<not> isHubConnection ?e \<and> \<not> isSelfLoop ?e then neighborFlag (rimOrder d) ?t else False)"
    by (simp add: e layoutEdge_def Let_def)
  have excl: "isSelfLoop ?e \<or> isHubConnection ?e \<longrightarrow> \<not> isNeighbor ?e"
    using nb by auto
  have ring: "isNeighbor ?e \<longleftrightarrow> \<bar>int a - int b\<bar> = 1 \<or> \<bar>int a - int b\<bar> = int ?n - 1"
    if "\<not> isSelfLoop ?e" "\<not> isHubConnection ?e" "a < ?n" "b < ?n"
      "state_id (rimOrder d ! a) = source ?t" "state_id (rimOrder d ! b) = target ?t" for a b
  proof -
    have sa: "findIndex (\<lambda>n. state_id n = source ?t) (rimOrder d) = int a"
      using findIndex_nth [OF distinct_rimOrder that(3)] that(5) by simp
    have sb: "findIndex (\<lambda>n. state_id n = target ?t) (rimOrder d) = int b"
      using findIndex_nth [OF distinct_rimOrder that(4)] that(6) by simp
    show ?thesis using that(1,2) by (simp add: nb neighborFlag_def sa sb Let_def)
  qed
  show ?thesis unfolding Let_def using hub self excl ring by blast
qed

text \<open>
  Scenario A: the transition from RUN to DONE joins the ring indices 0 and 1 of a ring of
  length 2, and is a neighbour edge; the transition from IDLE to RUN is a hub connection.
\<close>

theorem edge_classification_witness:
  "1 < length (transitions scenarioA)
   \<and> \<not> isSelfLoop (edges (getRadialLayoutElements scenarioA) ! 1)
   \<and> \<not> isHubConnection (edges (getRadialLayoutElements scenarioA) ! 1)
   \<and> 0 < length (rimOrder scenarioA) \<and> 1 < length (rimOrder scenarioA)
   \<and> state_id (rimOrder scenarioA ! 0) = source (transitions scenarioA ! 1)
   \<and> state_id (rimOrder scenarioA ! 1) = target (transitions scenarioA ! 1)
   \<and> isNeighbor (edges (getRadialLayoutElements scenarioA) ! 1)
   \<and> isHubConnection (edges (getRadialLayoutElements scenarioA) ! 0)
   \<and> \<not> isNeighbor (edges (getRadialLayoutElements scenarioA) ! 0)"
proof -
  let ?e = "edges (getRadialLayoutElements scenarioA) ! 1"
  let ?f = "edges (getRadialLayoutElements scenarioA) ! 0"
  have t: "transitions scenarioA ! Suc 0 = mkTransition ''S1'' ''S2''"
    "transitions scenarioA ! 0 = mkTransition ''S0'' ''S1''"
    by (simp_all add: scenarioA_def)
  have l: "1 < length (transitions scenarioA)" "0 < length (transitions scenarioA)"
    by (simp_all add: scenarioA_def)
  note w = edge_classification [OF l(1), unfolded Let_def]
  note w0 = edge_classification [OF l(2), unfolded Let_def]
  from w have s: "\<not> isSelfLoop ?e" and h: "\<not> isHubConnection ?e"
    by (simp_all add: t hubId_scenarioA)
  have r: "0 < length (rimOrder scenarioA)" "1 < length (rimOrder scenarioA)"
    "state_id (rimOrder scenarioA ! 0) = source (transitions scenarioA ! 1)"
    "state_id (rimOrder scenarioA ! 1) = target (transitions scenarioA ! 1)"
    by (simp_all add: rimOrder_scenarioA t)
  from w s h r have "isNeighbor ?e \<longleftrightarrow>
      \<bar>int 0 - int 1\<bar> = 1 \<or> \<bar>int 0 - int 1\<bar> = int (length (rimOrder scenarioA)) - 1"
    by blast
  then have n: "isNeighbor ?e" by simp
  from w0 have h0: "isHubConnection ?f" by (simp add: t hubId_scenarioA)
  with w0 have n0: "\<not> isNeighbor ?f" by blast
  from l s h r n h0 n0 show ?thesis by blast
qed

end
